theory Spec2Isabelle
  imports Complex_Main "HOL-Library.Sublist" "HOL-Library.Product_Lexorder"
begin

section \<open>Data model\<close>

text \<open>
  Python strings are sequences of Unicode code points; a string is modelled as the
  list of its code points. Amounts, confidences and similarity scores are Python
  floats; they are idealised as real numbers. Pixel coordinates are integers.
\<close>

type_synonym ustr = "nat list"

definition str :: "string \<Rightarrow> ustr" where
  "str s = map of_char s"

text \<open>
  A candidate is the dictionary built by the assemblers (keys \<open>id\<close>, \<open>page\<close>,
  \<open>bbox\<close>, \<open>raw_cells\<close>, \<open>desc\<close>, \<open>amount\<close>, \<open>conf\<close>); \<open>merged_ids\<close> is present only
  on merged representatives. \<open>bbox\<close> and \<open>amount\<close> may hold Python's \<open>None\<close>.
\<close>

record candidate =
  cand_id :: int
  page :: int
  bbox :: "(int \<times> int \<times> int \<times> int) option"
  raw_cells :: "ustr list"
  desc :: ustr
  amount :: "real option"
  conf :: real
  merged_ids :: "int list option"

section \<open>Wrapped-row merging (candidates.py)\<close>

text \<open>\<open>_is_wrapped_row(parent, candidate)\<close>, test by test in the order of the source.\<close>

definition is_wrapped_row :: "candidate \<Rightarrow> candidate \<Rightarrow> bool" where
  "is_wrapped_row parent c =
     (if amount c \<noteq> None then False
      else if desc c = [] \<or> length (desc c) < 3 then False
      else if page parent \<noteq> page c then False
      else (case (bbox parent, bbox c) of
              (Some (px1, py1, px2, py2), Some (cx1, cy1, cx2, cy2)) \<Rightarrow>
                (let vertical_gap = cy1 - py2 in
                 if vertical_gap < - 5 \<or> vertical_gap > 10 then False
                 else let horizontal_offset = \<bar>cx1 - px1\<bar> in
                   if horizontal_offset > 20 then False else True)
            | _ \<Rightarrow> False))"

text \<open>\<open>_merge_two_candidates(parent, wrapped)\<close>: a copy of the parent with the
  description, bounding box, raw cells and confidence updated.\<close>

definition merge_two_candidates :: "candidate \<Rightarrow> candidate \<Rightarrow> candidate" where
  "merge_two_candidates parent wrapped =
     parent\<lparr>
       desc := (if desc wrapped \<noteq> []
                then (if desc parent \<noteq> [] then desc parent @ [32] @ desc wrapped
                      else desc wrapped)
                else desc parent),
       bbox := (case (bbox parent, bbox wrapped) of
                  (Some (px1, py1, px2, py2), Some (wx1, wy1, wx2, wy2)) \<Rightarrow>
                    Some (min px1 wx1, py1, max px2 wx2, wy2)
                | _ \<Rightarrow> bbox parent),
       raw_cells := raw_cells parent @ raw_cells wrapped,
       conf := (if conf parent > 0 \<and> conf wrapped > 0
                then (conf parent + conf wrapped) / 2
                else conf parent)\<rparr>"

text \<open>The inner \<open>while j < len(candidates)\<close> loop of \<open>merge_wrapped_rows\<close>: it
  folds the rows from index \<open>j\<close> on into \<open>merged_candidate\<close> while they are wrapped
  rows of it, recording each absorbed index in \<open>skip_next\<close>.\<close>

function absorb_wrapped ::
  "candidate list \<Rightarrow> candidate \<Rightarrow> nat \<Rightarrow> nat set \<Rightarrow> candidate \<times> nat set" where
  "absorb_wrapped candidates merged_candidate j skip_next =
     (if j < length candidates then
        (if is_wrapped_row merged_candidate (candidates ! j)
         then absorb_wrapped candidates
                (merge_two_candidates merged_candidate (candidates ! j)) (j + 1)
                (insert j skip_next)
         else (merged_candidate, skip_next))
      else (merged_candidate, skip_next))"
  by pat_completeness auto
termination
  by (relation "measure (\<lambda>(cs, m, j, skip). length cs - j)") auto

declare absorb_wrapped.simps [simp del]

text \<open>The outer \<open>for i, candidate in enumerate(candidates)\<close> loop; the state is the
  pair \<open>(merged, skip_next)\<close>.\<close>

fun merge_loop ::
  "candidate list \<Rightarrow> nat list \<Rightarrow> candidate list \<times> nat set \<Rightarrow> candidate list" where
  "merge_loop candidates [] (merged, skip_next) = merged"
| "merge_loop candidates (i # rest) (merged, skip_next) =
     (if i \<in> skip_next then merge_loop candidates rest (merged, skip_next)
      else (case absorb_wrapped candidates (candidates ! i) (i + 1) skip_next of
              (merged_candidate, skip_next') \<Rightarrow>
                merge_loop candidates rest (merged @ [merged_candidate], skip_next')))"

definition merge_wrapped_rows :: "candidate list \<Rightarrow> candidate list" where
  "merge_wrapped_rows candidates =
     (if candidates = [] then []
      else merge_loop candidates [0..<length candidates] ([], {}))"

text \<open>The sample input of \<open>main()\<close> in candidates.py: a line item, its wrapped
  continuation line, and a second line item.\<close>

definition sample_item1 :: candidate where
  "sample_item1 = \<lparr>cand_id = 1, page = 1, bbox = Some (10, 10, 390, 30),
     raw_cells = [str ''Item 1'', str ''5'', 8377 # str ''1,234.50''],
     desc = str ''Item 1'', amount = Some 1234.5, conf = 92, merged_ids = None\<rparr>"

definition sample_continued :: candidate where
  "sample_continued = \<lparr>cand_id = 2, page = 1, bbox = Some (10, 32, 390, 45),
     raw_cells = [str ''continued description''],
     desc = str ''continued description'', amount = None, conf = 88, merged_ids = None\<rparr>"

definition sample_item2 :: candidate where
  "sample_item2 = \<lparr>cand_id = 3, page = 1, bbox = Some (10, 60, 390, 80),
     raw_cells = [str ''Item 2'', str ''3'', 8377 # str ''500.00''],
     desc = str ''Item 2'', amount = Some 500, conf = 90, merged_ids = None\<rparr>"

text \<open>A parent followed by two continuation lines, each directly below the previous
  one, with confidences 80, 80 and 20.\<close>

definition chain_parent :: candidate where
  "chain_parent = \<lparr>cand_id = 1, page = 1, bbox = Some (10, 10, 390, 30),
     raw_cells = [str ''Item 1''],
     desc = str ''Item 1'', amount = Some 100, conf = 80, merged_ids = None\<rparr>"

definition chain_row1 :: candidate where
  "chain_row1 = \<lparr>cand_id = 2, page = 1, bbox = Some (10, 32, 390, 45),
     raw_cells = [str ''second line''],
     desc = str ''second line'', amount = None, conf = 80, merged_ids = None\<rparr>"

definition chain_row2 :: candidate where
  "chain_row2 = \<lparr>cand_id = 3, page = 1, bbox = Some (10, 47, 390, 60),
     raw_cells = [str ''third line''],
     desc = str ''third line'', amount = None, conf = 20, merged_ids = None\<rparr>"

text \<open>\<open>wrapped_chain parent rows\<close>: every row of \<open>rows\<close>, in order, is a wrapped row
  of the candidate merged so far, so the whole of \<open>rows\<close> is absorbed into \<open>parent\<close>.\<close>

fun wrapped_chain :: "candidate \<Rightarrow> candidate list \<Rightarrow> bool" where
  "wrapped_chain parent [] = True"
| "wrapped_chain parent (w # ws) =
     (is_wrapped_row parent w \<and> wrapped_chain (merge_two_candidates parent w) ws)"

text \<open>The confidence update of \<open>_merge_two_candidates\<close> on its own.\<close>

definition average_two :: "real \<Rightarrow> real \<Rightarrow> real" where
  "average_two a b = (if a > 0 \<and> b > 0 then (a + b) / 2 else a)"

text \<open>What the two loops of \<open>merge_wrapped_rows\<close> compute, by recursion on the list.
  \<open>absorb_list m ws\<close> folds the leading rows of \<open>ws\<close> into \<open>m\<close> for as long as each is a
  wrapped row of the candidate merged so far, and returns the merged candidate with
  the rows that are left. \<open>merged_chains cs\<close> takes the first candidate as a parent,
  absorbs its wrapped rows and goes on with the rows that are left. That
  \<open>merge_wrapped_rows cs = merged_chains cs\<close> for every list is proved below.\<close>

fun absorb_list :: "candidate \<Rightarrow> candidate list \<Rightarrow> candidate \<times> candidate list" where
  "absorb_list m [] = (m, [])"
| "absorb_list m (w # ws) =
     (if is_wrapped_row m w then absorb_list (merge_two_candidates m w) ws else (m, w # ws))"

lemma absorb_list_suffix:
  "snd (absorb_list m ws) = drop (length ws - length (snd (absorb_list m ws))) ws \<and>
   length (snd (absorb_list m ws)) \<le> length ws"
proof (induction ws arbitrary: m)
  case Nil
  then show ?case by simp
next
  case (Cons w ws)
  show ?case
  proof (cases "is_wrapped_row m w")
    case True
    have le: "length (snd (absorb_list (merge_two_candidates m w) ws)) \<le> length ws"
      using Cons.IH by blast
    then have "Suc (length ws) - length (snd (absorb_list (merge_two_candidates m w) ws))
        = Suc (length ws - length (snd (absorb_list (merge_two_candidates m w) ws)))"
      by simp
    with True le Cons.IH [of "merge_two_candidates m w"] show ?thesis by simp
  next
    case False
    then show ?thesis by simp
  qed
qed

lemma absorb_list_length: "length (snd (absorb_list m ws)) \<le> length ws"
  using absorb_list_suffix by blast

lemma absorb_list_length_pair:
  "(m, rest) = absorb_list c cs \<Longrightarrow> length rest < Suc (length cs)"
  using absorb_list_length [of c cs] by (metis le_imp_less_Suc snd_conv)

function merged_chains :: "candidate list \<Rightarrow> candidate list" where
  "merged_chains [] = []"
| "merged_chains (c # cs) = (case absorb_list c cs of (m, rest) \<Rightarrow> m # merged_chains rest)"
  by pat_completeness auto
termination
  by (relation "measure length") (auto dest: absorb_list_length_pair)

section \<open>Strings and numbers of the Python run-time\<close>

text \<open>
  The character classes follow Python 3's \<open>str\<close> methods and \<open>re\<close> module on the
  ASCII range, and on the Unicode white-space code points. The letters, digits and
  case mappings of Unicode beyond ASCII are not tabulated here: a code point above 127
  is left unchanged by \<open>lower\<close> and is not a word character of \<open>\w\<close>.
\<close>

definition is_space :: "nat \<Rightarrow> bool" where
  "is_space c = ((9 \<le> c \<and> c \<le> 13) \<or> (28 \<le> c \<and> c \<le> 32) \<or> c = 133 \<or> c = 160 \<or>
     c = 5760 \<or> (8192 \<le> c \<and> c \<le> 8202) \<or> c = 8232 \<or> c = 8233 \<or> c = 8239 \<or>
     c = 8287 \<or> c = 12288)"

definition is_digit :: "nat \<Rightarrow> bool" where
  "is_digit c = (48 \<le> c \<and> c \<le> 57)"

definition is_word :: "nat \<Rightarrow> bool" where
  "is_word c = ((97 \<le> c \<and> c \<le> 122) \<or> (65 \<le> c \<and> c \<le> 90) \<or> is_digit c \<or> c = 95)"

definition lower_char :: "nat \<Rightarrow> nat" where
  "lower_char c = (if 65 \<le> c \<and> c \<le> 90 then c + 32 else c)"

definition lower :: "ustr \<Rightarrow> ustr" where
  "lower s = map lower_char s"

definition strip :: "ustr \<Rightarrow> ustr" where
  "strip s = rev (dropWhile is_space (rev (dropWhile is_space s)))"

text \<open>\<open>s.split()\<close>: the maximal runs of non-white-space characters.\<close>

fun split_acc :: "ustr \<Rightarrow> ustr \<Rightarrow> ustr list" where
  "split_acc cur [] = (if cur = [] then [] else [cur])"
| "split_acc cur (c # cs) =
     (if is_space c then (if cur = [] then split_acc [] cs else cur # split_acc [] cs)
      else split_acc (cur @ [c]) cs)"

definition split :: "ustr \<Rightarrow> ustr list" where
  "split s = split_acc [] s"

text \<open>\<open>' '.join(tokens)\<close>.\<close>

fun join :: "ustr list \<Rightarrow> ustr" where
  "join [] = []"
| "join [t] = t"
| "join (t # ts) = t @ [32] @ join ts"

text \<open>\<open>re.sub(r'\s+', ' ', s)\<close>: every maximal run of white space becomes one space.\<close>

fun collapse_from :: "bool \<Rightarrow> ustr \<Rightarrow> ustr" where
  "collapse_from in_run [] = []"
| "collapse_from in_run (c # cs) =
     (if is_space c then (if in_run then collapse_from True cs else 32 # collapse_from True cs)
      else c # collapse_from False cs)"

definition collapse_spaces :: "ustr \<Rightarrow> ustr" where
  "collapse_spaces s = collapse_from False s"

text \<open>\<open>round(x, 2)\<close>: rounding to two decimals, ties to the even neighbour. The
  binary representation error of a float is not modelled: on real numbers two rounded
  amounts are less than 0.01 apart exactly when they are equal, while the float
  difference of two amounts one cent apart can fall just below 0.01.\<close>

definition round_half_even :: "real \<Rightarrow> int" where
  "round_half_even x =
     (let f = \<lfloor>x\<rfloor>; d = x - of_int f in
      if d < 1 / 2 then f else if d > 1 / 2 then f + 1
      else if even f then f else f + 1)"

definition round2 :: "real \<Rightarrow> real" where
  "round2 x = of_int (round_half_even (x * 100)) / 100"

text \<open>The exceptions the modelled code can raise.\<close>

datatype py_error = ZeroDivisionError | TypeError

section \<open>Deduplication (dedupe.py)\<close>

definition INVOICE_STOPWORDS :: "ustr list" where
  "INVOICE_STOPWORDS = map str
     [''qty'', ''nos'', ''no'', ''pcs'', ''pc'', ''each'', ''pack'', ''pkt'', ''box'',
      ''unit'', ''units'', ''item'', ''items'', ''ea'', ''per'', ''total'', ''amt'',
      ''amount'', ''rate'', ''price'', ''value'', ''description'', ''desc'']"

definition canonicalize_description :: "ustr \<Rightarrow> ustr" where
  "canonicalize_description text0 =
     (if text0 = [] then []
      else let text1 = lower text0;
               text2 = map (\<lambda>c. if is_word c \<or> is_space c then c else 32) text1;
               tokens = split text2;
               filtered_tokens = filter (\<lambda>t. t \<notin> set INVOICE_STOPWORDS) tokens;
               result = collapse_spaces (join filtered_tokens)
           in strip result)"

text \<open>
  \<open>fuzz.token_set_ratio\<close> belongs to the rapidfuzz library; \<open>deduplicate_candidates\<close>
  is modelled for an arbitrary similarity function, its first parameter.
\<close>

type_synonym ratio_fn = "ustr \<Rightarrow> ustr \<Rightarrow> real"

text \<open>
  The test \<open>abs(round(candidate_amt, 2) - round(other_amt, 2)) < 0.01\<close> compares a
  float difference with the very gap between two neighbouring rounded amounts, so its
  outcome on amounts one cent apart rests on the rounding error of the float
  subtraction: \<open>1234.5 - 1234.49\<close> evaluates to 0.00999999999999, below 0.01, and the
  pair passes (as \<open>test_fuzzy_matching\<close> of dedupe.py expects), while on exact numbers
  the difference is 0.01 and the pair would fail. The outcome of the float test is
  therefore not computed from the real values: it is the second parameter of the
  model, \<open>within_cent\<close>.
\<close>

type_synonym cent_test = "real \<Rightarrow> real \<Rightarrow> bool"

text \<open>The body of the inner loop of \<open>deduplicate_candidates\<close> for one later
  candidate \<open>other\<close>: whether it is appended to the group started by \<open>candidate\<close>, or
  the exception raised on the way.\<close>

definition joins_group ::
  "ratio_fn \<Rightarrow> cent_test \<Rightarrow> int \<Rightarrow> candidate \<Rightarrow> candidate \<Rightarrow> py_error + bool" where
  "joins_group token_set_ratio within_cent ratio_thresh candidate other =
     (let ratio = token_set_ratio (canonicalize_description (desc candidate))
                                  (canonicalize_description (desc other)) in
      if ratio \<ge> of_int ratio_thresh then
        (case (amount candidate, amount other) of
           (Some candidate_amt, Some other_amt) \<Rightarrow>
             if max candidate_amt other_amt = 0 then Inl ZeroDivisionError
             else let diff_pct =
                        \<bar>candidate_amt - other_amt\<bar> / max candidate_amt other_amt * 100 in
               if diff_pct > 5 then Inr False
               else if within_cent candidate_amt other_amt then
                 (if page candidate = page other then
                    (case (bbox candidate, bbox other) of
                       (Some (ax1, y1, ax2, ay2), Some (bx1, y2, bx2, by2)) \<Rightarrow>
                         Inr (\<bar>y1 - y2\<bar> < 50)
                     | _ \<Rightarrow> Inl TypeError)
                  else Inr True)
               else Inr False
         | (None, None) \<Rightarrow> Inr True
         | _ \<Rightarrow> Inr False)
      else Inr False)"

text \<open>The inner loop \<open>for j in range(i + 1, len(candidates))\<close>; the state is the
  pair \<open>(group, processed)\<close>, \<open>group\<close> written \<open>grp\<close>.\<close>

fun scan_later ::
  "ratio_fn \<Rightarrow> cent_test \<Rightarrow> int \<Rightarrow> candidate list \<Rightarrow> nat \<Rightarrow> nat list \<Rightarrow> nat list \<times> nat set
     \<Rightarrow> py_error + (nat list \<times> nat set)" where
  "scan_later r wc th cs i [] (grp, processed) = Inr (grp, processed)"
| "scan_later r wc th cs i (j # js) (grp, processed) =
     (if j \<in> processed then scan_later r wc th cs i js (grp, processed)
      else (case joins_group r wc th (cs ! i) (cs ! j) of
              Inl e \<Rightarrow> Inl e
            | Inr True \<Rightarrow> scan_later r wc th cs i js (grp @ [j], insert j processed)
            | Inr False \<Rightarrow> scan_later r wc th cs i js (grp, processed)))"

text \<open>The outer loop \<open>for i, candidate in enumerate(candidates)\<close>; the state is the
  pair \<open>(groups, processed)\<close>.\<close>

fun group_loop ::
  "ratio_fn \<Rightarrow> cent_test \<Rightarrow> int \<Rightarrow> candidate list \<Rightarrow> nat list \<Rightarrow> nat list list \<times> nat set
     \<Rightarrow> py_error + (nat list list \<times> nat set)" where
  "group_loop r wc th cs [] (groups, processed) = Inr (groups, processed)"
| "group_loop r wc th cs (i # rest) (groups, processed) =
     (if i \<in> processed then group_loop r wc th cs rest (groups, processed)
      else (case scan_later r wc th cs i [i + 1..<length cs] ([i], insert i processed) of
              Inl e \<Rightarrow> Inl e
            | Inr (grp, processed') \<Rightarrow>
                group_loop r wc th cs rest (groups @ [grp], processed')))"

definition build_groups ::
  "ratio_fn \<Rightarrow> cent_test \<Rightarrow> int \<Rightarrow> candidate list \<Rightarrow> py_error + nat list list" where
  "build_groups r wc th cs =
     (case group_loop r wc th cs [0..<length cs] ([], {}) of
        Inl e \<Rightarrow> Inl e
      | Inr (groups, processed) \<Rightarrow> Inr groups)"

text \<open>\<open>max(group_candidates, key=lambda c: c.get('conf', 0))\<close>: the first candidate of
  greatest confidence.\<close>

fun first_max_conf :: "candidate \<Rightarrow> candidate list \<Rightarrow> candidate" where
  "first_max_conf best [] = best"
| "first_max_conf best (c # cs) =
     (if conf c > conf best then first_max_conf c cs else first_max_conf best cs)"

text \<open>One iteration of \<open>for group in groups\<close>: the record appended to \<open>deduped\<close>.\<close>

definition resolve_group :: "candidate list \<Rightarrow> nat list \<Rightarrow> candidate" where
  "resolve_group cs grp =
     (if length grp = 1 then cs ! hd grp
      else let group_candidates = map (\<lambda>idx. cs ! idx) grp;
               representative = first_max_conf (hd group_candidates) (tl group_candidates);
               confs = map conf group_candidates
           in representative\<lparr>
                merged_ids := Some (map (\<lambda>idx. cand_id (cs ! idx)) grp),
                conf := (if confs \<noteq> [] then sum_list confs / real (length confs) else 0)\<rparr>)"

text \<open>The final \<open>deduped.sort(key=...)\<close>: a stable sort by page and top edge.
  Subscripting the bounding box of a candidate whose \<open>bbox\<close> is \<open>None\<close> raises.\<close>

definition sort_position :: "candidate \<Rightarrow> int \<times> int" where
  "sort_position c = (page c, (case bbox c of Some (x1, y1, x2, y2) \<Rightarrow> y1 | None \<Rightarrow> 0))"

definition deduplicate_candidates ::
  "ratio_fn \<Rightarrow> cent_test \<Rightarrow> candidate list \<Rightarrow> int \<Rightarrow> py_error + candidate list" where
  "deduplicate_candidates token_set_ratio within_cent candidates ratio_thresh =
     (if candidates = [] then Inr []
      else (case build_groups token_set_ratio within_cent ratio_thresh candidates of
              Inl e \<Rightarrow> Inl e
            | Inr groups \<Rightarrow>
                (let deduped = map (resolve_group candidates) groups in
                 if \<exists>c \<in> set deduped. bbox c = None then Inl TypeError
                 else Inr (sort_key sort_position deduped))))"

text \<open>A similarity function for concrete runs: 100 on two equal non-empty strings,
  as \<open>token_set_ratio\<close> gives, and 0 otherwise. It is applied below only to
  descriptions whose canonical forms are equal or share no word, where the score of
  the library is far below the thresholds used.\<close>

definition same_text_ratio :: ratio_fn where
  "same_text_ratio a b = (if a = b \<and> a \<noteq> [] then 100 else 0)"

text \<open>The outcome of the float test on the amounts of the concrete runs below: it
  holds on two equal amounts (the float difference is 0.0) and on the pair 1234.50 and
  1234.49 of \<open>test_fuzzy_matching\<close>. It is applied to no other pair.\<close>

definition sample_within_cent :: cent_test where
  "sample_within_cent a b =
     (a = b \<or> (a = 1234.5 \<and> b = 1234.49) \<or> (a = 1234.49 \<and> b = 1234.5))"

text \<open>The input of \<open>test_fuzzy_matching\<close> in dedupe.py: ids 1, 2 and 4 are expected to
  merge.\<close>

definition fuzzy_candidates :: "candidate list" where
  "fuzzy_candidates =
     [\<lparr>cand_id = 1, page = 1, bbox = Some (10, 10, 200, 30), raw_cells = [],
       desc = str ''Widget Type A - 5 Nos'', amount = Some 1234.5, conf = 92,
       merged_ids = None\<rparr>,
      \<lparr>cand_id = 2, page = 1, bbox = Some (10, 50, 200, 70), raw_cells = [],
       desc = str ''Widget Type A (5 pcs)'', amount = Some 1234.5, conf = 88,
       merged_ids = None\<rparr>,
      \<lparr>cand_id = 3, page = 1, bbox = Some (10, 90, 200, 110), raw_cells = [],
       desc = str ''Different Product'', amount = Some 500, conf = 90,
       merged_ids = None\<rparr>,
      \<lparr>cand_id = 4, page = 2, bbox = Some (10, 10, 200, 30), raw_cells = [],
       desc = str ''Widget Type-A, Qty: 5'', amount = Some 1234.49, conf = 95,
       merged_ids = None\<rparr>]"

text \<open>Sample rows for \<open>deduplicate_candidates\<close>: a row \<open>Widget Type A\<close> with the
  given id, page, top edge and amount, and a zero-priced row \<open>Free sample\<close>.\<close>

definition widget :: "int \<Rightarrow> int \<Rightarrow> int \<Rightarrow> real \<Rightarrow> candidate" where
  "widget i p y a = \<lparr>cand_id = i, page = p, bbox = Some (10, y, 200, y + 20),
     raw_cells = [str ''Widget Type A''], desc = str ''Widget Type A'', amount = Some a,
     conf = 90, merged_ids = None\<rparr>"

definition free_sample :: "int \<Rightarrow> int \<Rightarrow> candidate" where
  "free_sample i y = \<lparr>cand_id = i, page = 1, bbox = Some (10, y, 200, y + 20),
     raw_cells = [str ''Free sample'', str ''0.00''], desc = str ''Free sample'',
     amount = Some 0, conf = 90, merged_ids = None\<rparr>"

text \<open>\<open>greedy_groups J n P groups\<close> describes the groups the two loops build when
  \<open>P\<close> is the set of indices processed before: each group is an index \<open>i\<close> outside
  \<open>P\<close> followed by the later indices outside \<open>P\<close> that join it (\<open>J i j\<close>), and the
  groups after it are built with the group's members added to \<open>P\<close>.\<close>

fun greedy_groups ::
  "(nat \<Rightarrow> nat \<Rightarrow> bool) \<Rightarrow> nat \<Rightarrow> nat set \<Rightarrow> nat list list \<Rightarrow> bool" where
  "greedy_groups J n P [] = True"
| "greedy_groups J n P (g # gs) =
     ((\<exists>i. i \<notin> P \<and> g = i # filter (\<lambda>j. j \<notin> P \<and> J i j) [i + 1..<n]) \<and>
      greedy_groups J n (P \<union> set g) gs)"

section \<open>Reconciliation (reconcile.py)\<close>

text \<open>
  \<open>ilp_reconcile\<close> builds a 0/1 linear programme with PuLP and hands it to the CBC
  solver. The programme it builds is modelled as a value: the binary variables by the
  candidate ids that name them (the keys of \<open>x_vars\<close>), the objective terms
  \<open>conf * x\<close>, the deviation penalty, the total constraint with its two non-negative
  auxiliary variables, and one constraint \<open>sum \<le> 1\<close> per duplicate group.
\<close>

record lp_problem =
  lp_vars :: "int list"
  lp_objective :: "(real \<times> int) list"
  lp_penalty :: "real option"
  lp_total :: "((real \<times> int) list \<times> real \<times> real) option"
  lp_groups :: "int list list"

text \<open>What is read back from a solved programme: \<open>varValue\<close> of each binary variable
  (\<open>None\<close> for a variable the solver was not given) and the two auxiliary variables.\<close>

record lp_solution =
  x_value :: "int \<Rightarrow> real option"
  z_plus :: real
  z_minus :: real

datatype lp_outcome = Optimal lp_solution | NotOptimal

text \<open>The solver is outside the repository; \<open>ilp_reconcile\<close> is modelled for an
  arbitrary solver, its first parameter.\<close>

type_synonym lp_solver = "lp_problem \<Rightarrow> lp_outcome"

definition var_value :: "lp_solution \<Rightarrow> int \<Rightarrow> real" where
  "var_value s i = (case x_value s i of None \<Rightarrow> 0 | Some v \<Rightarrow> v)"

definition lin_sum :: "(real \<times> int) list \<Rightarrow> lp_solution \<Rightarrow> real" where
  "lin_sum terms s = sum_list (map (\<lambda>(coef, i). coef * var_value s i) terms)"

text \<open>The constraints of the programme: every variable is 0 or 1; the selected total
  minus the reported total equals \<open>z_plus - z_minus\<close> with both non-negative and their
  sum within the tolerance; at most one variable of each group is set.\<close>

definition feasible :: "lp_problem \<Rightarrow> lp_solution \<Rightarrow> bool" where
  "feasible p s =
     ((\<forall>i \<in> set (lp_vars p). var_value s i = 0 \<or> var_value s i = 1) \<and>
      (case lp_total p of
         None \<Rightarrow> True
       | Some (terms, reported_total, tolerance) \<Rightarrow>
           0 \<le> z_plus s \<and> 0 \<le> z_minus s \<and>
           lin_sum terms s - reported_total = z_plus s - z_minus s \<and>
           z_plus s + z_minus s \<le> tolerance) \<and>
      (\<forall>g \<in> set (lp_groups p). sum_list (map (var_value s) g) \<le> 1))"

definition objective_value :: "lp_problem \<Rightarrow> lp_solution \<Rightarrow> real" where
  "objective_value p s =
     lin_sum (lp_objective p) s -
     (case lp_penalty p of None \<Rightarrow> 0 | Some penalty \<Rightarrow> penalty * (z_plus s + z_minus s))"

text \<open>The contract of a solver that \<open>ilp_reconcile\<close> relies on: an assignment reported
  as optimal satisfies the constraints of the programme.\<close>

definition solver_sound :: "lp_solver \<Rightarrow> bool" where
  "solver_sound solve = (\<forall>p s. solve p = Optimal s \<longrightarrow> feasible p s)"

record reconcile_result =
  selected_ids :: "int list"
  selected_total :: real
  deviation :: real
  status :: string

text \<open>The programme built from \<open>valid_candidates\<close>, the candidates that carry an
  amount (the branch for a missing amount is never taken on them).\<close>

definition build_problem ::
  "candidate list \<Rightarrow> real option \<Rightarrow> int list list option \<Rightarrow> real \<Rightarrow> lp_problem" where
  "build_problem candidates reported_total duplicate_groups tolerance =
     (let x_vars = remdups (map cand_id candidates) in
      \<lparr>lp_vars = x_vars,
       lp_objective = map (\<lambda>c. (conf c, cand_id c)) candidates,
       lp_penalty = (case reported_total of None \<Rightarrow> None | Some t \<Rightarrow> Some 10),
       lp_total = (case reported_total of
                     None \<Rightarrow> None
                   | Some t \<Rightarrow>
                       Some (map (\<lambda>c. (case amount c of Some a \<Rightarrow> a | None \<Rightarrow> 0,
                                        cand_id c)) candidates,
                             t, tolerance)),
       lp_groups = (case duplicate_groups of
                      None \<Rightarrow> []
                    | Some groups \<Rightarrow>
                        filter (\<lambda>group_vars. group_vars \<noteq> [])
                          (map (filter (\<lambda>cand_id. cand_id \<in> set x_vars)) groups))\<rparr>)"

text \<open>The read-out loop: \<open>if x.varValue and x.varValue > 0.5\<close>.\<close>

definition is_selected :: "lp_solution \<Rightarrow> int \<Rightarrow> bool" where
  "is_selected s i = (case x_value s i of None \<Rightarrow> False | Some v \<Rightarrow> v \<noteq> 0 \<and> v > 0.5)"

definition abs_target :: "real option \<Rightarrow> real" where
  "abs_target reported_total = (case reported_total of None \<Rightarrow> 0 | Some t \<Rightarrow> \<bar>t\<bar>)"

definition ilp_reconcile ::
  "lp_solver \<Rightarrow> candidate list \<Rightarrow> real option \<Rightarrow> int list list option \<Rightarrow> real
     \<Rightarrow> reconcile_result" where
  "ilp_reconcile solve candidates reported_total duplicate_groups tolerance =
     (if candidates = [] then
        \<lparr>selected_ids = [], selected_total = 0, deviation = 0, status = ''ok''\<rparr>
      else let valid_candidates = filter (\<lambda>c. amount c \<noteq> None) candidates in
        if valid_candidates = [] then
          \<lparr>selected_ids = [], selected_total = 0, deviation = abs_target reported_total,
           status = ''no_valid_amounts''\<rparr>
        else (case solve (build_problem valid_candidates reported_total duplicate_groups
                            tolerance) of
                NotOptimal \<Rightarrow>
                  \<lparr>selected_ids = [], selected_total = 0,
                   deviation = abs_target reported_total, status = ''infeasible''\<rparr>
              | Optimal s \<Rightarrow>
                  (let chosen = filter (\<lambda>c. is_selected s (cand_id c)) valid_candidates;
                       total = sum_list (map (\<lambda>c. case amount c of None \<Rightarrow> 0 | Some a \<Rightarrow> a)
                                 chosen);
                       dev = (case reported_total of None \<Rightarrow> 0 | Some t \<Rightarrow> \<bar>total - t\<bar>)
                   in \<lparr>selected_ids = map cand_id chosen, selected_total = round2 total,
                       deviation = round2 dev, status = ''ok''\<rparr>)))"

text \<open>A reference solver by exhaustive search, used to run \<open>ilp_reconcile\<close> on concrete
  inputs: it tries every 0/1 assignment of the variables, gives the auxiliary
  variables the positive and the negative part of the deviation, keeps the feasible
  assignments and returns the first one of greatest objective value.\<close>

fun assignments :: "int list \<Rightarrow> (int \<Rightarrow> real option) list" where
  "assignments [] = [\<lambda>i. None]"
| "assignments (v # vs) = concat (map (\<lambda>x. [x(v \<mapsto> 0), x(v \<mapsto> 1)]) (assignments vs))"

definition complete_solution :: "lp_problem \<Rightarrow> (int \<Rightarrow> real option) \<Rightarrow> lp_solution" where
  "complete_solution p x =
     (case lp_total p of
        None \<Rightarrow> \<lparr>x_value = x, z_plus = 0, z_minus = 0\<rparr>
      | Some (terms, reported_total, tolerance) \<Rightarrow>
          (let d = lin_sum terms \<lparr>x_value = x, z_plus = 0, z_minus = 0\<rparr> - reported_total
           in \<lparr>x_value = x, z_plus = max 0 d, z_minus = max 0 (- d)\<rparr>))"

fun first_best :: "lp_problem \<Rightarrow> lp_solution \<Rightarrow> lp_solution list \<Rightarrow> lp_solution" where
  "first_best p best [] = best"
| "first_best p best (s # ss) =
     (if objective_value p s > objective_value p best then first_best p s ss
      else first_best p best ss)"

definition exhaustive_solve :: lp_solver where
  "exhaustive_solve p =
     (case filter (feasible p) (map (complete_solution p) (assignments (lp_vars p))) of
        [] \<Rightarrow> NotOptimal
      | s # ss \<Rightarrow> Optimal (first_best p s ss))"

text \<open>\<open>candidates_3\<close> of \<open>main()\<close> in reconcile.py: items 2 and 3 are duplicates.\<close>

definition line_item :: "int \<Rightarrow> string \<Rightarrow> real option \<Rightarrow> real \<Rightarrow> candidate" where
  "line_item i d a c = \<lparr>cand_id = i, page = 1, bbox = None, raw_cells = [], desc = str d,
     amount = a, conf = c, merged_ids = None\<rparr>"

definition candidates_3 :: "candidate list" where
  "candidates_3 =
     [line_item 1 ''Item A'' (Some 100) 95, line_item 2 ''Widget X'' (Some 200) 85,
      line_item 3 ''Widget X'' (Some 200) 92, line_item 4 ''Item D'' (Some 50) 70]"

text \<open>\<open>key_to_ids[key].append(id)\<close>, with the entry created at the end of the
  dictionary when the key is new (a Python dictionary keeps insertion order).\<close>

fun append_id :: "'k \<Rightarrow> int \<Rightarrow> ('k \<times> int list) list \<Rightarrow> ('k \<times> int list) list" where
  "append_id key i [] = [(key, [i])]"
| "append_id key i ((k, id_list) # rest) =
     (if k = key then (k, id_list @ [i]) # rest else (k, id_list) # append_id key i rest)"

text \<open>The key of a candidate in \<open>make_duplicate_groups_from_candidates\<close>: the
  description stripped and lowercased, and the amount rounded to 2 decimals; no key
  for a candidate without amount.\<close>

definition duplicate_key :: "candidate \<Rightarrow> (ustr \<times> real) option" where
  "duplicate_key c =
     (case amount c of
        None \<Rightarrow> None
      | Some a \<Rightarrow> Some (lower (strip (desc c)), round2 a))"

definition make_duplicate_groups_from_candidates :: "candidate list \<Rightarrow> int list list" where
  "make_duplicate_groups_from_candidates candidates =
     (if candidates = [] then []
      else let key_to_ids =
                 foldl (\<lambda>m c. case duplicate_key c of
                                 None \<Rightarrow> m
                               | Some key \<Rightarrow> append_id key (cand_id c) m) [] candidates
           in map snd (filter (\<lambda>(key, id_list). length id_list > 1) key_to_ids))"

text \<open>The ids, in order, of the candidates that have the key \<open>k\<close>.\<close>

definition ids_with_key :: "ustr \<times> real \<Rightarrow> candidate list \<Rightarrow> int list" where
  "ids_with_key k candidates =
     map cand_id (filter (\<lambda>c. duplicate_key c = Some k) candidates)"

text \<open>The dictionary \<open>key_to_ids\<close> after the loop over the candidates.\<close>

definition key_table :: "candidate list \<Rightarrow> ((ustr \<times> real) \<times> int list) list" where
  "key_table cs = foldl (\<lambda>m c. case duplicate_key c of None \<Rightarrow> m
                               | Some key \<Rightarrow> append_id key (cand_id c) m) [] cs"

section \<open>Amount parsing (ocr_cells.py)\<close>

text \<open>\<open>re.search(r'\bDr\b', text, re.IGNORECASE)\<close> for a lower-case word \<open>w\<close>: some
  occurrence of \<open>w\<close>, in either case, has no word character directly before it and
  none directly after it. \<open>prev_word\<close> tells whether the character before the current
  position is a word character.\<close>

fun search_word :: "ustr \<Rightarrow> bool \<Rightarrow> ustr \<Rightarrow> bool" where
  "search_word w prev_word [] = False"
| "search_word w prev_word (c # cs) =
     ((\<not> prev_word \<and> map lower_char (take (length w) (c # cs)) = w \<and>
       (case drop (length w) (c # cs) of [] \<Rightarrow> True | d # rest \<Rightarrow> \<not> is_word d)) \<or>
      search_word w (is_word c) cs)"

text \<open>The character class \<open>[\<dots>INR USD EUR GBP JPY Rs\s]\<close> under \<open>re.IGNORECASE\<close>: the
  five currency signs (rupee, dollar, euro, pound, yen), the letters
  \<open>i n r u s d e g b p j y\<close> in either case with the three code points that Python
  folds to \<open>i\<close> and \<open>s\<close>, and white space.\<close>

definition in_currency_class :: "nat \<Rightarrow> bool" where
  "in_currency_class c =
     (c \<in> {8377, 36, 8364, 163, 165} \<or> lower_char c \<in> set (str ''inrusdegbpjy'') \<or>
      c \<in> {304, 305, 383} \<or> is_space c)"

text \<open>\<open>re.search(r'\(([0-9,\.]+)\)', cleaned)\<close>: group 1 of the leftmost match.\<close>

definition in_number_class :: "nat \<Rightarrow> bool" where
  "in_number_class c = (is_digit c \<or> c = 44 \<or> c = 46)"

fun paren_search :: "ustr \<Rightarrow> ustr option" where
  "paren_search [] = None"
| "paren_search (c # cs) =
     (if c = 40 then
        (let inner = takeWhile in_number_class cs; rest = dropWhile in_number_class cs in
         if inner \<noteq> [] \<and> rest \<noteq> [] \<and> hd rest = 41 then Some inner else paren_search cs)
      else paren_search cs)"

text \<open>
  The pattern \<open>-?[0-9]{1,3}(?:,?[0-9]{3})*(?:\.[0-9]+)?\<close> matched at the head of a
  string by Python's backtracking matcher. Every part after the first digit is
  optional, so the first attempt of each greedy quantifier already succeeds: the match
  is the sign if present, then up to three digits, then as many groups of an optional
  comma and exactly three digits as follow, then a point with the digits after it.
  Each function returns what it consumed and the rest of the string.
\<close>

function match_groups :: "ustr \<Rightarrow> ustr \<times> ustr" where
  "match_groups s =
     (if 4 \<le> length s \<and> hd s = 44 \<and> list_all is_digit (take 3 (tl s)) then
        (case match_groups (drop 4 s) of (m, r) \<Rightarrow> (take 4 s @ m, r))
      else if 3 \<le> length s \<and> list_all is_digit (take 3 s) then
        (case match_groups (drop 3 s) of (m, r) \<Rightarrow> (take 3 s @ m, r))
      else ([], s))"
  by pat_completeness auto
termination
  by (relation "measure length") auto

declare match_groups.simps [simp del]

definition match_decimal :: "ustr \<Rightarrow> ustr \<times> ustr" where
  "match_decimal s =
     (case s of
        c # d # rest \<Rightarrow>
          if c = 46 \<and> is_digit d
          then (c # takeWhile is_digit (d # rest), dropWhile is_digit (d # rest))
          else ([], s)
      | _ \<Rightarrow> ([], s))"

definition match_number :: "ustr \<Rightarrow> (ustr \<times> ustr) option" where
  "match_number s =
     (let sign = (if s \<noteq> [] \<and> hd s = 45 then [45] else []);
          s1 = drop (length sign) s;
          first_digits = takeWhile is_digit (take 3 s1)
      in if first_digits = [] then None
         else (case match_groups (drop (length first_digits) s1) of
                 (groups, s2) \<Rightarrow>
                   (case match_decimal s2 of
                      (decimals, s3) \<Rightarrow> Some (sign @ first_digits @ groups @ decimals, s3))))"

lemma match_groups_length: "length (snd (match_groups s)) \<le> length s"
proof (induction s rule: match_groups.induct)
  case (1 s)
  show ?case
    using "1.IH" by (subst match_groups.simps) (auto split: prod.splits)
qed

lemma match_decimal_length: "length (snd (match_decimal s)) \<le> length s"
  by (auto simp: match_decimal_def length_dropWhile_le le_SucI split: list.splits)

lemma match_number_shorter:
  assumes "match_number s = Some (m, r)"
  shows "length r < length s"
proof -
  define sign where "sign = (if s \<noteq> [] \<and> hd s = 45 then [45::nat] else [])"
  define s1 where "s1 = drop (length sign) s"
  define fd where "fd = takeWhile is_digit (take 3 s1)"
  have fd: "fd \<noteq> []"
    using assms by (auto simp: match_number_def Let_def sign_def s1_def fd_def split: if_splits)
  have r: "r = snd (match_decimal (snd (match_groups (drop (length fd) s1))))"
    using assms
    by (auto simp: match_number_def Let_def sign_def s1_def fd_def split: if_splits prod.splits)
  have "length fd \<le> length (take 3 s1)"
    unfolding fd_def by (rule length_takeWhile_le)
  then have "length fd \<le> length s1" by simp
  moreover have "0 < length fd" using fd by simp
  moreover have "length (drop (length fd) s1) = length s1 - length fd" by simp
  ultimately have "length (drop (length fd) s1) < length s1" by linarith
  moreover have "length s1 \<le> length s" by (simp add: s1_def)
  moreover have "length r \<le> length (drop (length fd) s1)"
    unfolding r using match_decimal_length match_groups_length le_trans by blast
  ultimately show ?thesis by linarith
qed

text \<open>\<open>re.findall(pattern, cleaned)\<close>: the matches from left to right, the search
  resuming where the last match ended.\<close>

function findall :: "ustr \<Rightarrow> ustr list" where
  "findall [] = []"
| "findall (c # cs) =
     (case match_number (c # cs) of
        Some (m, rest) \<Rightarrow> m # findall rest
      | None \<Rightarrow> findall cs)"
  by pat_completeness auto
termination
  by (relation "measure length") (auto dest: match_number_shorter)

text \<open>\<open>float(amount_str)\<close> on a match with the commas removed: an optional sign,
  digits, and optionally a point and digits.\<close>

definition digits_value :: "ustr \<Rightarrow> nat" where
  "digits_value ds = foldl (\<lambda>a d. 10 * a + (d - 48)) 0 ds"

definition to_float :: "ustr \<Rightarrow> real" where
  "to_float s =
     (let negative = (s \<noteq> [] \<and> hd s = 45);
          body = (if negative then tl s else s);
          int_part = takeWhile is_digit body;
          frac_part = drop (length int_part + 1) body;
          magnitude = real (digits_value int_part) +
                      real (digits_value frac_part) / 10 ^ length frac_part
      in if negative then - magnitude else magnitude)"

text \<open>\<open>extract_amount_from_cell_text\<close>. The flag \<open>is_credit\<close> of the source is computed
  and never read. Every \<open>amount_str\<close> is accepted by \<open>float\<close>, so the handler of
  \<open>ValueError\<close> is never entered.\<close>

definition extract_amount_from_cell_text :: "ustr \<Rightarrow> real option" where
  "extract_amount_from_cell_text text0 =
     (if text0 = [] then None
      else let is_debit = search_word (str ''dr'') False text0;
               cleaned = filter (\<lambda>c. \<not> in_currency_class c) text0;
               parentheses_match = paren_search cleaned;
               is_negative = (parentheses_match \<noteq> None);
               cleaned' = (case parentheses_match of None \<Rightarrow> cleaned | Some inner \<Rightarrow> inner);
               matches = findall cleaned'
           in if matches = [] then None
              else let amount_str = filter (\<lambda>c. c \<noteq> 44) (last matches);
                       amount0 = to_float amount_str;
                       amount1 = (if is_negative then - \<bar>amount0\<bar> else amount0);
                       amount2 = (if is_debit \<and> amount1 > 0 then - amount1 else amount1)
                   in Some amount2)"

section \<open>Text-based extraction (text_based_extraction.py)\<close>

text \<open>An OCR token: its text, confidence and box.\<close>

record token =
  tok_text :: ustr
  tok_conf :: int
  tok_left :: int
  tok_top :: int
  tok_width :: int
  tok_height :: int

text \<open>The dictionary returned by \<open>extract_line_item_from_row\<close>; the caller adds the
  keys \<open>id\<close> and \<open>page\<close>.\<close>

record row_item =
  ri_desc :: ustr
  ri_amount :: real
  ri_conf :: real
  ri_bbox :: "int \<times> int \<times> int \<times> int"
  ri_raw_cells :: "ustr list"

text \<open>The loop over the tokens of a row; the state is the pair
  \<open>(desc_tokens, amount_candidates)\<close>, an amount candidate being its amount, confidence
  and text.\<close>

fun scan_row ::
  "token list \<Rightarrow> ustr list \<times> (real \<times> int \<times> ustr) list
     \<Rightarrow> ustr list \<times> (real \<times> int \<times> ustr) list" where
  "scan_row [] (desc_tokens, amount_candidates) = (desc_tokens, amount_candidates)"
| "scan_row (t # ts) (desc_tokens, amount_candidates) =
     (let text0 = strip (tok_text t) in
      if text0 = [] then scan_row ts (desc_tokens, amount_candidates)
      else (case extract_amount_from_cell_text text0 of
              Some amount0 \<Rightarrow>
                scan_row ts (desc_tokens, amount_candidates @ [(amount0, tok_conf t, text0)])
            | None \<Rightarrow> scan_row ts (desc_tokens @ [text0], amount_candidates)))"

definition min_of :: "int list \<Rightarrow> int" where
  "min_of xs = foldl min (hd xs) (tl xs)"

definition max_of :: "int list \<Rightarrow> int" where
  "max_of xs = foldl max (hd xs) (tl xs)"

definition extract_line_item_from_row :: "token list \<Rightarrow> row_item option" where
  "extract_line_item_from_row row_tokens =
     (if row_tokens = [] then None
      else (case scan_row row_tokens ([], []) of
              (desc_tokens, amount_candidates) \<Rightarrow>
                if amount_candidates = [] then None
                else let non_zero_amounts = filter (\<lambda>a. fst a > 0.01) amount_candidates;
                         best_amount = (if non_zero_amounts \<noteq> [] then fst (last non_zero_amounts)
                                        else fst (last amount_candidates));
                         avg_conf = real_of_int (sum_list (map tok_conf row_tokens)) /
                                    real (length row_tokens)
                     in Some \<lparr>ri_desc = strip (join desc_tokens), ri_amount = best_amount,
                              ri_conf = avg_conf,
                              ri_bbox =
                                (min_of (map tok_left row_tokens),
                                 min_of (map tok_top row_tokens),
                                 max_of (map (\<lambda>t. tok_left t + tok_width t) row_tokens),
                                 max_of (map (\<lambda>t. tok_top t + tok_height t) row_tokens)),
                              ri_raw_cells = map tok_text row_tokens\<rparr>))"

text \<open>The numeric tokens of a row, as the specification words them: the values of
  the tokens whose stripped text is not empty and parses to an amount, from left to
  right.\<close>

definition row_amounts :: "token list \<Rightarrow> real list" where
  "row_amounts row_tokens =
     List.map_filter (\<lambda>t. if strip (tok_text t) = [] then None
                          else extract_amount_from_cell_text (strip (tok_text t))) row_tokens"

text \<open>\<open>cluster_tokens_into_rows\<close>: the tokens sorted by top edge (a stable sort), cut
  into rows where a token lies more than \<open>y_threshold\<close> from the first token of the
  current row; each row is sorted by left edge.\<close>

fun cluster_loop ::
  "int \<Rightarrow> token list \<Rightarrow> token list \<Rightarrow> int \<Rightarrow> token list list \<Rightarrow> token list list" where
  "cluster_loop y_threshold [] current_row current_y rows =
     rows @ [sort_key tok_left current_row]"
| "cluster_loop y_threshold (t # ts) current_row current_y rows =
     (if \<bar>tok_top t - current_y\<bar> \<le> y_threshold
      then cluster_loop y_threshold ts (current_row @ [t]) current_y rows
      else cluster_loop y_threshold ts [t] (tok_top t)
             (rows @ [sort_key tok_left current_row]))"

definition cluster_tokens_into_rows :: "token list \<Rightarrow> int \<Rightarrow> token list list" where
  "cluster_tokens_into_rows tokens y_threshold =
     (if tokens = [] then []
      else let sorted_tokens = sort_key tok_top tokens in
        cluster_loop y_threshold (tl sorted_tokens) [hd sorted_tokens]
          (tok_top (hd sorted_tokens)) [])"

text \<open>\<open>keyword in desc_lower\<close>: the keyword occurs as a substring.\<close>

fun contains :: "ustr \<Rightarrow> ustr \<Rightarrow> bool" where
  "contains keyword [] = (keyword = [])"
| "contains keyword (c # cs) = (prefix keyword (c # cs) \<or> contains keyword cs)"

definition total_keywords :: "ustr list" where
  "total_keywords = map str
     [''total'', ''subtotal'', ''grand total'', ''amount due'', ''balance'', ''net amount'',
      ''sum'', ''category total'']"

text \<open>The loop over the rows in \<open>extract_candidates_text_based\<close>; the state is the pair
  \<open>(candidates, candidate_id)\<close>.\<close>

fun rows_loop ::
  "int \<Rightarrow> token list list \<Rightarrow> candidate list \<times> int \<Rightarrow> candidate list \<times> int" where
  "rows_loop page_no [] (candidates, candidate_id) = (candidates, candidate_id)"
| "rows_loop page_no (row # rows) (candidates, candidate_id) =
     (case extract_line_item_from_row row of
        None \<Rightarrow> rows_loop page_no rows (candidates, candidate_id)
      | Some item \<Rightarrow>
          if length (ri_desc item) < 3 then rows_loop page_no rows (candidates, candidate_id)
          else if ri_amount item \<noteq> 0 \<and> \<bar>ri_amount item\<bar> > 999999999
            then rows_loop page_no rows (candidates, candidate_id)
          else if \<exists>keyword \<in> set total_keywords. contains keyword (lower (ri_desc item))
            then rows_loop page_no rows (candidates, candidate_id)
          else rows_loop page_no rows
                 (candidates @
                    [\<lparr>cand_id = candidate_id, page = page_no, bbox = Some (ri_bbox item),
                      raw_cells = ri_raw_cells item, desc = ri_desc item,
                      amount = Some (ri_amount item), conf = ri_conf item,
                      merged_ids = None\<rparr>],
                  candidate_id + 1))"

text \<open>\<open>extract_candidates_text_based\<close>, from the tokens the OCR engine returned for
  the page: \<open>candidate_id\<close> starts at 1 in every call.\<close>

definition extract_candidates_text_based :: "token list \<Rightarrow> int \<Rightarrow> candidate list" where
  "extract_candidates_text_based ocr_tokens page_no =
     (if ocr_tokens = [] then []
      else let tokens = filter (\<lambda>t. tok_conf t \<ge> 30) ocr_tokens;
               rows = cluster_tokens_into_rows tokens 20
           in fst (rows_loop page_no rows ([], 1)))"

text \<open>Step 3 of the pipeline in app.py: the pages are numbered from 1 and the
  candidates of every page are appended to \<open>all_candidates\<close>.\<close>

fun extract_pages :: "int \<Rightarrow> token list list \<Rightarrow> candidate list" where
  "extract_pages page_no [] = []"
| "extract_pages page_no (ocr_tokens # pages) =
     extract_candidates_text_based ocr_tokens page_no @ extract_pages (page_no + 1) pages"

definition extract_all_pages :: "token list list \<Rightarrow> candidate list" where
  "extract_all_pages pages = extract_pages 1 pages"

text \<open>A token with the given text and left and top edge (confidence 90, 60 by 20
  pixels).\<close>

definition tok :: "string \<Rightarrow> int \<Rightarrow> int \<Rightarrow> token" where
  "tok s x y = \<lparr>tok_text = str s, tok_conf = 90, tok_left = x, tok_top = y,
     tok_width = 60, tok_height = 20\<rparr>"

text \<open>Sample rows: a discount in parentheses after the line total, a zero-valued tax
  column after the line total, and the tokens of a page that holds one line item.\<close>

definition discount_row :: "token list" where
  "discount_row = [tok ''Service'' 10 100, tok ''100'' 300 100, tok ''(20)'' 400 100]"

definition zero_tax_row :: "token list" where
  "zero_tax_row = [tok ''Service'' 10 100, tok ''100'' 300 100, tok ''0.00'' 400 100]"

text \<open>A refund in parentheses followed by a zero-valued column.\<close>

definition refund_row :: "token list" where
  "refund_row = [tok ''Refund'' 10 100, tok ''(50.00)'' 300 100, tok ''0.00'' 400 100]"

definition widget_page_tokens :: "token list" where
  "widget_page_tokens = [tok ''Widget'' 10 100, tok ''100'' 300 100]"

section \<open>Properties of wrapped-row merging\<close>

lemma absorb_wrapped_stop:
  assumes "j < length cs \<longrightarrow> \<not> is_wrapped_row m (cs ! j)"
  shows "absorb_wrapped cs m j skip = (m, skip)"
  using assms by (subst absorb_wrapped.simps) auto

lemma merge_loop_no_wrap:
  assumes "\<forall>i. Suc i < length cs \<longrightarrow> \<not> is_wrapped_row (cs ! i) (cs ! Suc i)"
    and "k \<le> length cs"
  shows "merge_loop cs [k..<length cs] (take k cs, {}) = cs"
  using assms(2)
proof (induction "length cs - k" arbitrary: k)
  case 0
  then show ?case by simp
next
  case (Suc d)
  then have k: "k < length cs" by simp
  have stop: "absorb_wrapped cs (cs ! k) (k + 1) {} = (cs ! k, {})"
    using assms(1) by (intro absorb_wrapped_stop) simp
  have "merge_loop cs [k..<length cs] (take k cs, {})
      = merge_loop cs [Suc k..<length cs] (take k cs @ [cs ! k], {})"
    using k stop by (simp add: upt_conv_Cons)
  also have "take k cs @ [cs ! k] = take (Suc k) cs"
    using k by (simp add: take_Suc_conv_app_nth)
  also have "merge_loop cs [Suc k..<length cs] (take (Suc k) cs, {}) = cs"
    using Suc k by (intro Suc.hyps(1)) auto
  finally show ?case .
qed

lemma is_wrapped_row_iff:
  assumes "bbox parent = Some (px1, py1, px2, py2)" and "bbox c = Some (cx1, cy1, cx2, cy2)"
  shows "is_wrapped_row parent c \<longleftrightarrow>
     amount c = None \<and> 3 \<le> length (desc c) \<and> page parent = page c \<and>
     - 5 \<le> cy1 - py2 \<and> cy1 - py2 \<le> 10 \<and> \<bar>cx1 - px1\<bar> \<le> 20"
  using assms by (auto simp: is_wrapped_row_def Let_def)

lemma is_wrapped_row_no_bbox:
  assumes "bbox parent = None \<or> bbox c = None"
  shows "\<not> is_wrapped_row parent c"
  using assms by (auto simp: is_wrapped_row_def split: option.splits)

text \<open>
  C7. If no candidate is a wrapped row of its predecessor, \<open>merge_wrapped_rows\<close>
  returns its input: the same candidates (hence the same ids) in the same order.
\<close>

theorem merge_wrapped_rows_no_wrap_unchanged:
  assumes "\<forall>i. Suc i < length cs \<longrightarrow> \<not> is_wrapped_row (cs ! i) (cs ! Suc i)"
  shows "merge_wrapped_rows cs = cs"
proof (cases "cs = []")
  case True
  then show ?thesis by (simp add: merge_wrapped_rows_def)
next
  case False
  have "merge_loop cs [0..<length cs] (take 0 cs, {}) = cs"
    using assms by (intro merge_loop_no_wrap) auto
  with False show ?thesis by (simp add: merge_wrapped_rows_def)
qed

theorem merge_wrapped_rows_no_wrap_unchanged_witness:
  "merge_wrapped_rows [sample_item1, sample_item2] = [sample_item1, sample_item2]"
proof -
  have "\<not> is_wrapped_row sample_item1 sample_item2"
    by (simp add: is_wrapped_row_def sample_item2_def)
  then have "\<forall>i. Suc i < length [sample_item1, sample_item2] \<longrightarrow>
      \<not> is_wrapped_row ([sample_item1, sample_item2] ! i) ([sample_item1, sample_item2] ! Suc i)"
    by simp
  then show ?thesis by (rule merge_wrapped_rows_no_wrap_unchanged)
qed

lemma absorb_wrapped_chain:
  assumes "wrapped_chain m ws" and "drop j cs = ws" and "j \<le> length cs"
  shows "absorb_wrapped cs m j skip
       = (foldl merge_two_candidates m ws, skip \<union> {j..<length cs})"
  using assms
proof (induction ws arbitrary: m j skip)
  case Nil
  then have "j = length cs" by simp
  then show ?case by (subst absorb_wrapped.simps) simp
next
  case (Cons w ws)
  have j: "j < length cs"
    using Cons.prems(2) by (cases "j < length cs") auto
  have w: "cs ! j = w"
    using Cons.prems(2) j by (metis hd_drop_conv_nth list.sel(1))
  have rest: "drop (Suc j) cs = ws"
    using Cons.prems(2) by (metis drop_Suc list.sel(3) tl_drop)
  have "absorb_wrapped cs m j skip
      = absorb_wrapped cs (merge_two_candidates m w) (Suc j) (insert j skip)"
    using j w Cons.prems(1) by (subst absorb_wrapped.simps) simp
  also have "\<dots> = (foldl merge_two_candidates (merge_two_candidates m w) ws,
                   insert j skip \<union> {Suc j..<length cs})"
    using Cons.prems(1) rest j by (intro Cons.IH) auto
  also have "insert j skip \<union> {Suc j..<length cs} = skip \<union> {j..<length cs}"
    using j by auto
  finally show ?case by simp
qed

lemma merge_loop_all_skipped:
  assumes "set is \<subseteq> skip"
  shows "merge_loop cs is (merged, skip) = merged"
  using assms by (induction "is") auto

lemma merge_wrapped_rows_chain:
  assumes "wrapped_chain p ws"
  shows "merge_wrapped_rows (p # ws) = [foldl merge_two_candidates p ws]"
proof -
  have a: "absorb_wrapped (p # ws) p (0 + 1) {}
         = (foldl merge_two_candidates p ws, {Suc 0..<length (p # ws)})"
    using absorb_wrapped_chain [of p ws 1 "p # ws" "{}"] assms by simp
  have "[0..<length (p # ws)] = 0 # [Suc 0..<length (p # ws)]"
    by (rule upt_conv_Cons) simp
  then show ?thesis
    using a by (simp add: merge_wrapped_rows_def merge_loop_all_skipped del: upt_Suc length_Cons)
qed

lemma conf_merge_two: "conf (merge_two_candidates p w) = average_two (conf p) (conf w)"
  by (simp add: merge_two_candidates_def average_two_def)

lemma conf_foldl_merge:
  "conf (foldl merge_two_candidates p ws) = foldl average_two (conf p) (map conf ws)"
  by (induction ws arbitrary: p) (simp_all add: conf_merge_two)

lemma sample_chain: "wrapped_chain chain_parent [chain_row1, chain_row2]"
  by (simp add: chain_parent_def chain_row1_def chain_row2_def is_wrapped_row_def
      merge_two_candidates_def str_def)

lemma absorb_wrapped_list:
  assumes "j \<le> length cs"
  shows "absorb_wrapped cs m j skip =
     (fst (absorb_list m (drop j cs)),
      skip \<union> {j..<length cs - length (snd (absorb_list m (drop j cs)))})"
  using assms
proof (induction "length cs - j" arbitrary: m j skip)
  case 0
  then have "j = length cs" by simp
  then show ?case by (subst absorb_wrapped.simps) simp
next
  case (Suc d)
  then have j: "j < length cs" by simp
  then have dr: "drop j cs = cs ! j # drop (Suc j) cs" by (simp add: Cons_nth_drop_Suc)
  show ?case
  proof (cases "is_wrapped_row m (cs ! j)")
    case False
    with j dr show ?thesis by (subst absorb_wrapped.simps) simp
  next
    case True
    let ?m = "merge_two_candidates m (cs ! j)"
    let ?rest = "snd (absorb_list ?m (drop (Suc j) cs))"
    have le: "length ?rest \<le> length cs - Suc j"
      using absorb_list_length [of ?m "drop (Suc j) cs"] by simp
    have "absorb_wrapped cs m j skip = absorb_wrapped cs ?m (Suc j) (insert j skip)"
      using j True by (subst absorb_wrapped.simps) simp
    also have "\<dots> = (fst (absorb_list ?m (drop (Suc j) cs)),
        insert j skip \<union> {Suc j..<length cs - length ?rest})"
      using Suc j by (intro Suc.hyps(1)) auto
    also have "insert j skip \<union> {Suc j..<length cs - length ?rest}
        = skip \<union> {j..<length cs - length ?rest}"
      using le j by auto
    finally show ?thesis using True dr by simp
  qed
qed

lemma merge_loop_chains:
  assumes "k \<le> k'" and "k' \<le> length cs"
    and "\<forall>i. k \<le> i \<and> i < length cs \<longrightarrow> (i \<in> skip \<longleftrightarrow> i < k')"
  shows "merge_loop cs [k..<length cs] (acc, skip) = acc @ merged_chains (drop k' cs)"
  using assms
proof (induction "length cs - k" arbitrary: k k' acc skip)
  case 0
  then show ?case by simp
next
  case (Suc d)
  then have k: "k < length cs" by simp
  have d: "d = length cs - Suc k" using Suc.hyps(2) by simp
  have up: "[k..<length cs] = k # [Suc k..<length cs]" using k by (simp add: upt_conv_Cons)
  have inv: "i \<in> skip \<longleftrightarrow> i < k'" if "k \<le> i" "i < length cs" for i
    using Suc.prems(3) that by blast
  show ?case
  proof (cases "k \<in> skip")
    case True
    then have kk: "Suc k \<le> k'" using inv [of k] k by simp
    have "\<forall>i. Suc k \<le> i \<and> i < length cs \<longrightarrow> (i \<in> skip \<longleftrightarrow> i < k')"
      using inv by simp
    with d kk Suc.prems(2)
    have "merge_loop cs [Suc k..<length cs] (acc, skip) = acc @ merged_chains (drop k' cs)"
      by (rule Suc.hyps(1))
    with True up show ?thesis by simp
  next
    case False
    then have "\<not> k < k'" using inv [of k] k by simp
    then have kk: "k' = k" using Suc.prems(1) by simp
    let ?a = "absorb_list (cs ! k) (drop (Suc k) cs)"
    let ?e = "length cs - length (snd ?a)"
    have le: "length (snd ?a) \<le> length cs - Suc k"
      using absorb_list_length [of "cs ! k" "drop (Suc k) cs"] by simp
    have aw: "absorb_wrapped cs (cs ! k) (k + 1) skip = (fst ?a, skip \<union> {Suc k..<?e})"
      using absorb_wrapped_list [of "Suc k" cs "cs ! k" skip] k by simp
    have rest: "snd ?a = drop ?e cs"
    proof -
      have "snd ?a = drop (length (drop (Suc k) cs) - length (snd ?a)) (drop (Suc k) cs)"
        using absorb_list_suffix by blast
      also have "\<dots> = drop (length cs - Suc k - length (snd ?a) + Suc k) cs"
        by (simp only: drop_drop length_drop)
      also have "length cs - Suc k - length (snd ?a) + Suc k = ?e"
        using le k by linarith
      finally show ?thesis .
    qed
    have e1: "Suc k \<le> ?e" using le k by linarith
    have e2: "?e \<le> length cs" by simp
    have sk: "\<forall>i. Suc k \<le> i \<and> i < length cs \<longrightarrow> (i \<in> skip \<union> {Suc k..<?e} \<longleftrightarrow> i < ?e)"
    proof (intro allI impI)
      fix i assume i: "Suc k \<le> i \<and> i < length cs"
      then have "i \<notin> skip" using inv [of i] kk by simp
      with i show "i \<in> skip \<union> {Suc k..<?e} \<longleftrightarrow> i < ?e" by simp
    qed
    from d e1 e2 sk
    have "merge_loop cs [Suc k..<length cs] (acc @ [fst ?a], skip \<union> {Suc k..<?e})
        = (acc @ [fst ?a]) @ merged_chains (drop ?e cs)"
      by (rule Suc.hyps(1))
    moreover have "merged_chains (drop k cs) = fst ?a # merged_chains (snd ?a)"
      using k by (simp add: Cons_nth_drop_Suc [symmetric] split: prod.splits)
    ultimately show ?thesis using False up aw rest kk by simp
  qed
qed

lemma merge_wrapped_rows_chains: "merge_wrapped_rows cs = merged_chains cs"
proof (cases "cs = []")
  case True
  then show ?thesis by (simp add: merge_wrapped_rows_def)
next
  case False
  have "merge_loop cs [0..<length cs] ([], {}) = [] @ merged_chains (drop 0 cs)"
    by (rule merge_loop_chains) simp_all
  with False show ?thesis by (simp add: merge_wrapped_rows_def)
qed

lemma absorb_list_chain:
  assumes "wrapped_chain m ws"
    and "post = [] \<or> \<not> is_wrapped_row (foldl merge_two_candidates m ws) (hd post)"
  shows "absorb_list m (ws @ post) = (foldl merge_two_candidates m ws, post)"
  using assms
proof (induction ws arbitrary: m)
  case Nil
  then show ?case by (cases post) auto
next
  case (Cons w ws)
  then show ?case by simp
qed

lemma absorb_list_append:
  "absorb_list c (cs @ ys) =
     (if snd (absorb_list c cs) \<noteq> [] then (fst (absorb_list c cs), snd (absorb_list c cs) @ ys)
      else absorb_list (fst (absorb_list c cs)) ys)"
  by (induction cs arbitrary: c) auto

lemma merged_chains_nonempty: "cs \<noteq> [] \<Longrightarrow> merged_chains cs \<noteq> []"
  by (cases cs) (auto split: prod.splits)

lemma merged_chains_append:
  assumes "pre \<noteq> []" and "ys = [] \<or> \<not> is_wrapped_row (last (merged_chains pre)) (hd ys)"
  shows "merged_chains (pre @ ys) = merged_chains pre @ merged_chains ys"
  using assms
proof (induction pre rule: merged_chains.induct)
  case 1
  then show ?case by simp
next
  case (2 c cs)
  obtain m rest where a: "absorb_list c cs = (m, rest)" by (cases "absorb_list c cs")
  show ?case
  proof (cases "rest = []")
    case True
    then have mc: "merged_chains (c # cs) = [m]" using a by simp
    have "absorb_list m ys = (m, ys)"
      using "2.prems"(2) mc by (cases ys) auto
    then have "absorb_list c (cs @ ys) = (m, ys)"
      using a True by (simp add: absorb_list_append)
    then show ?thesis using mc by simp
  next
    case False
    then have ne: "merged_chains rest \<noteq> []" by (rule merged_chains_nonempty)
    have mc: "merged_chains (c # cs) = m # merged_chains rest" using a by simp
    then have "last (merged_chains (c # cs)) = last (merged_chains rest)" using ne by simp
    then have "merged_chains (rest @ ys) = merged_chains rest @ merged_chains ys"
      using "2.IH" [OF a [symmetric] False] "2.prems"(2) by simp
    moreover have "absorb_list c (cs @ ys) = (m, rest @ ys)"
      using a False by (simp add: absorb_list_append)
    ultimately show ?thesis using mc by simp
  qed
qed

lemma merge_wrapped_rows_chain_inside:
  assumes "wrapped_chain parent rows"
    and "pre = [] \<or> \<not> is_wrapped_row (last (merge_wrapped_rows pre)) parent"
    and "post = [] \<or> \<not> is_wrapped_row (foldl merge_two_candidates parent rows) (hd post)"
  shows "merge_wrapped_rows (pre @ parent # rows @ post) =
     merge_wrapped_rows pre @ foldl merge_two_candidates parent rows # merge_wrapped_rows post"
proof -
  have chain: "merged_chains (parent # rows @ post)
      = foldl merge_two_candidates parent rows # merged_chains post"
    using absorb_list_chain [OF assms(1,3)] by simp
  show ?thesis
  proof (cases "pre = []")
    case True
    with chain show ?thesis by (simp add: merge_wrapped_rows_chains)
  next
    case False
    then have "merged_chains (pre @ parent # rows @ post)
        = merged_chains pre @ merged_chains (parent # rows @ post)"
      using assms(2) by (intro merged_chains_append) (auto simp: merge_wrapped_rows_chains)
    with chain show ?thesis by (simp add: merge_wrapped_rows_chains)
  qed
qed

lemma sample_item1_chain: "wrapped_chain sample_item1 [sample_continued]"
  by (simp add: sample_item1_def sample_continued_def is_wrapped_row_def str_def)

lemma sample_item2_not_wrapped: "\<not> is_wrapped_row c sample_item2"
  by (simp add: is_wrapped_row_def sample_item2_def)

lemma chain_parent_not_wrapped: "\<not> is_wrapped_row c chain_parent"
  by (simp add: is_wrapped_row_def chain_parent_def)

lemma merge_wrapped_rows_single: "merge_wrapped_rows [c] = [c]"
  using merge_wrapped_rows_chain [of c "[]"] by simp

text \<open>
  C8, as stated, fails: a parent of confidence 80 that absorbs two rows of confidence
  80 and 20 ends with confidence 50, while the arithmetic mean of the three is 60.
\<close>

theorem merge_chain_confidence_not_mean:
  "length (merge_wrapped_rows [chain_parent, chain_row1, chain_row2]) = 1 \<and>
   conf (hd (merge_wrapped_rows [chain_parent, chain_row1, chain_row2])) = 50 \<and>
   (conf chain_parent + conf chain_row1 + conf chain_row2) / 3 = 60"
proof -
  have "conf (foldl merge_two_candidates chain_parent [chain_row1, chain_row2]) = 50"
    unfolding conf_foldl_merge
    by (simp add: average_two_def chain_parent_def chain_row1_def chain_row2_def)
  moreover have "(conf chain_parent + conf chain_row1 + conf chain_row2) / 3 = 60"
    by (simp add: chain_parent_def chain_row1_def chain_row2_def)
  ultimately show ?thesis
    by (simp only: merge_wrapped_rows_chain [OF sample_chain]) simp
qed

text \<open>
  C8, amended. Wherever a parent and the rows it absorbs stand in the list (after any
  rows \<open>pre\<close> whose last merged candidate does not absorb the parent, and before any
  rows \<open>post\<close> the first of which the merged candidate does not absorb),
  \<open>merge_wrapped_rows\<close> collapses them into one candidate, between the results for
  \<open>pre\<close> and \<open>post\<close>. Its confidence is the two-way average of \<open>_merge_two_candidates\<close>
  applied row after row to the running confidence (each step averages only when both
  confidences are positive, and keeps the running value otherwise). For a single
  absorbed row with both confidences positive this is the arithmetic mean of the two.
\<close>

theorem merge_chain_confidence_pairwise:
  assumes "wrapped_chain parent rows"
    and "pre = [] \<or> \<not> is_wrapped_row (last (merge_wrapped_rows pre)) parent"
    and "post = [] \<or> \<not> is_wrapped_row (foldl merge_two_candidates parent rows) (hd post)"
  shows "merge_wrapped_rows (pre @ parent # rows @ post)
       = merge_wrapped_rows pre @ foldl merge_two_candidates parent rows
           # merge_wrapped_rows post \<and>
     conf (foldl merge_two_candidates parent rows)
       = foldl average_two (conf parent) (map conf rows) \<and>
     (\<forall>w. rows = [w] \<and> 0 < conf parent \<and> 0 < conf w \<longrightarrow>
        conf (foldl merge_two_candidates parent rows) = (conf parent + conf w) / 2)"
proof (intro conjI allI impI)
  show "merge_wrapped_rows (pre @ parent # rows @ post)
      = merge_wrapped_rows pre @ foldl merge_two_candidates parent rows
          # merge_wrapped_rows post"
    using assms by (rule merge_wrapped_rows_chain_inside)
  show "conf (foldl merge_two_candidates parent rows)
      = foldl average_two (conf parent) (map conf rows)"
    by (rule conf_foldl_merge)
  fix w
  assume "rows = [w] \<and> 0 < conf parent \<and> 0 < conf w"
  then show "conf (foldl merge_two_candidates parent rows) = (conf parent + conf w) / 2"
    by (simp add: conf_merge_two average_two_def)
qed

text \<open>The witness runs the sample input of \<open>main()\<close> in candidates.py, where the
  chain is followed by a second line item, and a list in which a chain of two absorbed
  rows stands after another chain.\<close>

theorem merge_chain_confidence_pairwise_witness:
  "wrapped_chain sample_item1 [sample_continued] \<and>
   \<not> is_wrapped_row (merge_two_candidates sample_item1 sample_continued) sample_item2 \<and>
   merge_wrapped_rows [sample_item1, sample_continued, sample_item2]
     = [merge_two_candidates sample_item1 sample_continued, sample_item2] \<and>
   conf (merge_two_candidates sample_item1 sample_continued) = 90 \<and>
   wrapped_chain chain_parent [chain_row1, chain_row2] \<and>
   \<not> is_wrapped_row (last (merge_wrapped_rows [sample_item1, sample_continued])) chain_parent \<and>
   map conf (merge_wrapped_rows
       [sample_item1, sample_continued, chain_parent, chain_row1, chain_row2]) = [90, 50]"
proof -
  let ?m = "merge_two_candidates sample_item1 sample_continued"
  let ?c = "foldl merge_two_candidates chain_parent [chain_row1, chain_row2]"
  have pre: "merge_wrapped_rows [sample_item1, sample_continued] = [?m]"
    using merge_wrapped_rows_chain [OF sample_item1_chain] by simp
  have c90: "conf ?m = 90"
    by (simp add: conf_merge_two average_two_def sample_item1_def sample_continued_def)
  have w: "is_wrapped_row sample_item1 sample_continued"
    using sample_item1_chain by simp
  have first: "merge_wrapped_rows [sample_item1, sample_continued, sample_item2]
      = [?m, sample_item2]"
    using merge_chain_confidence_pairwise
      [of sample_item1 "[sample_continued]" "[]" "[sample_item2]"] w
    by (simp add: sample_item2_not_wrapped merge_wrapped_rows_single
        merge_wrapped_rows_def [of "[]"])
  have "merge_wrapped_rows ([sample_item1, sample_continued] @ chain_parent
          # [chain_row1, chain_row2] @ [])
      = merge_wrapped_rows [sample_item1, sample_continued] @ ?c # merge_wrapped_rows [] \<and>
     conf ?c = foldl average_two (conf chain_parent) (map conf [chain_row1, chain_row2])"
    using merge_chain_confidence_pairwise
      [of chain_parent "[chain_row1, chain_row2]" "[sample_item1, sample_continued]" "[]"]
      sample_chain chain_parent_not_wrapped
    by blast
  moreover have "foldl average_two (conf chain_parent) (map conf [chain_row1, chain_row2]) = 50"
    by (simp add: average_two_def chain_parent_def chain_row1_def chain_row2_def)
  ultimately have second: "map conf (merge_wrapped_rows
       [sample_item1, sample_continued, chain_parent, chain_row1, chain_row2]) = [90, 50]"
    by (simp add: pre c90 merge_wrapped_rows_def [of "[]"])
  show ?thesis
    using first second c90 sample_item1_chain sample_chain
    by (simp add: sample_item2_not_wrapped chain_parent_not_wrapped)
qed

section \<open>Properties of deduplication\<close>

lemmas str_eval = str_def lower_def lower_char_def is_word_def is_space_def is_digit_def
  split_def strip_def collapse_spaces_def INVOICE_STOPWORDS_def Let_def

lemma scan_later_char:
  assumes "scan_later r wc th cs i js (g, P) = Inr (g', P')" and "distinct js"
  shows "g' = g @ filter (\<lambda>j. j \<notin> P \<and> joins_group r wc th (cs ! i) (cs ! j) = Inr True) js \<and>
         P' = P \<union> set (filter (\<lambda>j. j \<notin> P \<and> joins_group r wc th (cs ! i) (cs ! j) = Inr True) js)"
  using assms
proof (induction js arbitrary: g P)
  case Nil
  then show ?case by simp
next
  case (Cons j js)
  let ?J = "\<lambda>P j. j \<notin> P \<and> joins_group r wc th (cs ! i) (cs ! j) = Inr True"
  have dj: "distinct js" and jn: "j \<notin> set js" using Cons.prems(2) by auto
  show ?case
  proof (cases "j \<in> P")
    case True
    then have "scan_later r wc th cs i js (g, P) = Inr (g', P')" using Cons.prems(1) by simp
    from Cons.IH [OF this dj] True show ?thesis by simp
  next
    case False
    show ?thesis
    proof (cases "joins_group r wc th (cs ! i) (cs ! j)")
      case (Inl e)
      with False Cons.prems(1) show ?thesis by simp
    next
      case (Inr b)
      show ?thesis
      proof (cases b)
        case True
        then have "scan_later r wc th cs i js (g @ [j], insert j P) = Inr (g', P')"
          using Cons.prems(1) False Inr by simp
        from Cons.IH [OF this dj]
        have g': "g' = (g @ [j]) @ filter (?J (insert j P)) js"
          and P': "P' = insert j P \<union> set (filter (?J (insert j P)) js)" by auto
        have eq: "filter (?J (insert j P)) js = filter (?J P) js"
          using jn by (intro filter_cong) auto
        show ?thesis using g' P' eq False Inr True by auto
      next
        case F: False
        then have "scan_later r wc th cs i js (g, P) = Inr (g', P')"
          using Cons.prems(1) False Inr by simp
        from Cons.IH [OF this dj] False Inr F show ?thesis by simp
      qed
    qed
  qed
qed

lemma group_loop_char:
  assumes "group_loop r wc th cs is (G, P) = Inr (G', P')"
  shows "\<exists>new. G' = G @ new \<and>
      greedy_groups (\<lambda>i j. joins_group r wc th (cs ! i) (cs ! j) = Inr True) (length cs) P new"
  using assms
proof (induction "is" arbitrary: G P)
  case Nil
  then show ?case by simp
next
  case (Cons i rest)
  let ?J = "\<lambda>i j. joins_group r wc th (cs ! i) (cs ! j) = Inr True"
  show ?case
  proof (cases "i \<in> P")
    case True
    with Cons.prems have "group_loop r wc th cs rest (G, P) = Inr (G', P')" by simp
    from Cons.IH [OF this] show ?thesis .
  next
    case False
    then obtain g Q where
      scan: "scan_later r wc th cs i [i + 1..<length cs] ([i], insert i P) = Inr (g, Q)"
      and loop: "group_loop r wc th cs rest (G @ [g], Q) = Inr (G', P')"
      using Cons.prems by (auto split: sum.splits)
    from scan_later_char [OF scan]
    have g: "g = [i] @ filter (\<lambda>j. j \<notin> insert i P \<and> ?J i j) [i + 1..<length cs]"
      and Q: "Q = insert i P \<union> set (filter (\<lambda>j. j \<notin> insert i P \<and> ?J i j) [i + 1..<length cs])"
      by auto
    have f: "filter (\<lambda>j. j \<notin> insert i P \<and> ?J i j) [i + 1..<length cs]
           = filter (\<lambda>j. j \<notin> P \<and> ?J i j) [i + 1..<length cs]"
      by (intro filter_cong) auto
    have Q': "Q = P \<union> set g" using g Q by auto
    from Cons.IH [OF loop] obtain new where
      new: "G' = (G @ [g]) @ new" "greedy_groups ?J (length cs) Q new" by auto
    have tail: "greedy_groups ?J (length cs) (P \<union> set g) new"
      using new(2) unfolding Q' .
    have head: "\<exists>i'. i' \<notin> P \<and> g = i' # filter (\<lambda>j. j \<notin> P \<and> ?J i' j) [i' + 1..<length cs]"
      using False g f by (intro exI [of _ i]) simp
    have "greedy_groups ?J (length cs) P (g # new)"
      using head tail by (simp only: greedy_groups.simps)
    with new(1) show ?thesis by (intro exI [of _ "g # new"]) simp
  qed
qed

lemma greedy_groups_member:
  assumes "greedy_groups J n P gs" and "k < length gs"
  shows "gs ! k \<noteq> [] \<and>
    (\<forall>j. j \<in> set (gs ! k) \<longleftrightarrow>
       j = hd (gs ! k) \<or>
       (hd (gs ! k) < j \<and> j < n \<and> j \<notin> P \<and> (\<forall>m<k. j \<notin> set (gs ! m)) \<and> J (hd (gs ! k)) j))"
  using assms
proof (induction gs arbitrary: P k)
  case Nil
  then show ?case by simp
next
  case (Cons g gs)
  show ?case
  proof (cases k)
    case 0
    with Cons.prems(1) show ?thesis by auto
  next
    case (Suc k')
    then have k': "k' < length gs" using Cons.prems(2) by simp
    have gg: "greedy_groups J n (P \<union> set g) gs" using Cons.prems(1) by simp
    from Cons.IH [OF gg k']
    have ne: "gs ! k' \<noteq> []" and
      mem: "\<And>j. j \<in> set (gs ! k') \<longleftrightarrow>
       j = hd (gs ! k') \<or>
       (hd (gs ! k') < j \<and> j < n \<and> j \<notin> P \<union> set g \<and> (\<forall>m<k'. j \<notin> set (gs ! m)) \<and> J (hd (gs ! k')) j)"
      by blast+
    have all: "\<And>j. (\<forall>m<Suc k'. j \<notin> set ((g # gs) ! m)) \<longleftrightarrow> j \<notin> set g \<and> (\<forall>m<k'. j \<notin> set (gs ! m))"
      by (auto simp: less_Suc_eq_0_disj)
    show ?thesis
      unfolding Suc using ne mem all by (simp del: all_simps)
  qed
qed


lemma build_groups_greedy:
  assumes "build_groups r wc th cs = Inr gs"
  shows "greedy_groups (\<lambda>i j. joins_group r wc th (cs ! i) (cs ! j) = Inr True) (length cs) {} gs"
proof -
  from assms obtain P' where "group_loop r wc th cs [0..<length cs] ([], {}) = Inr (gs, P')"
    by (auto simp: build_groups_def split: sum.splits)
  from group_loop_char [OF this] show ?thesis by simp
qed

lemma joins_group_matching:
  assumes "of_int th \<le> r (canonicalize_description (desc c)) (canonicalize_description (desc d))"
    and "amount c = Some a" and "amount d = Some b" and "max a b \<noteq> 0"
    and "\<not> 5 < \<bar>a - b\<bar> / max a b * 100"
    and "wc a b"
    and "bbox c = Some (x1, y1, x2, y2)" and "bbox d = Some (u1, v1, u2, v2)"
  shows "joins_group r wc th c d = Inr (page c \<noteq> page d \<or> \<bar>y1 - v1\<bar> < 50)"
  using assms by (simp add: joins_group_def Let_def)

lemma canon_widget:
  "canonicalize_description (str ''Widget Type A'') = str ''widget type a''"
  by (simp add: canonicalize_description_def str_eval)

lemma canon_free_sample:
  "canonicalize_description (str ''Free sample'') = str ''free sample''"
  by (simp add: canonicalize_description_def str_eval)

lemma widget_ratio:
  "same_text_ratio (canonicalize_description (desc (widget i p y a)))
     (canonicalize_description (desc (widget i' p' y' a'))) = 100"
  by (simp add: widget_def canon_widget same_text_ratio_def) (simp add: str_def)

lemma free_sample_ratio:
  "same_text_ratio (canonicalize_description (desc (free_sample i y)))
     (canonicalize_description (desc (free_sample i' y'))) = 100"
  by (simp add: free_sample_def canon_free_sample same_text_ratio_def) (simp add: str_def)

lemma round2_of_int: "round2 (of_int n) = of_int n"
  by (simp add: round2_def round_half_even_def)

lemma round2_100: "round2 100 = 100"
  using round2_of_int [of 100] by simp

lemma joins_widget:
  "a \<noteq> 0 \<Longrightarrow>
   joins_group same_text_ratio sample_within_cent 88 (widget i p y a) (widget i' p' y' a)
     = Inr (p \<noteq> p' \<or> \<bar>y - y'\<bar> < 50)"
  unfolding joins_group_def widget_ratio
  by (simp add: widget_def sample_within_cent_def)

lemma joins_free_sample:
  "joins_group same_text_ratio wc 88 (free_sample i y) (free_sample i' y')
     = Inl ZeroDivisionError"
  unfolding joins_group_def free_sample_ratio
  by (simp add: free_sample_def)

lemma three_widgets_groups:
  "build_groups same_text_ratio sample_within_cent 88
     [widget 1 1 0 100, widget 2 1 40 100, widget 3 1 80 100] = Inr [[0, 1], [2]]"
  by (simp add: build_groups_def upt_conv_Cons joins_widget)

text \<open>The canonical descriptions of the input of \<open>test_fuzzy_matching\<close>.\<close>

lemma canon_fuzzy:
  "canonicalize_description (str ''Widget Type A - 5 Nos'') = str ''widget type a 5''"
  "canonicalize_description (str ''Widget Type A (5 pcs)'') = str ''widget type a 5''"
  "canonicalize_description (str ''Widget Type-A, Qty: 5'') = str ''widget type a 5''"
  "canonicalize_description (str ''Different Product'') = str ''different product''"
  by (simp_all add: canonicalize_description_def str_eval)

lemma fuzzy_ratio:
  "same_text_ratio (str ''widget type a 5'') (str ''widget type a 5'') = 100"
  "same_text_ratio (str ''widget type a 5'') (str ''different product'') = 0"
  by (simp_all add: same_text_ratio_def str_def)

text \<open>With the float outcome of the cent test, the model groups the input of
  \<open>test_fuzzy_matching\<close> as the test expects: ids 1, 2 and 4 together, id 3 alone.\<close>

lemma fuzzy_groups:
  "build_groups same_text_ratio sample_within_cent 85 fuzzy_candidates
     = Inr [[0, 1, 3], [2]]"
  by (simp add: build_groups_def fuzzy_candidates_def upt_conv_Cons joins_group_def
      canon_fuzzy fuzzy_ratio sample_within_cent_def)

text \<open>
  C6, as stated, fails. Three rows \<open>Widget Type A\<close> of amount 100 lie on page 1 with
  top edges 0, 40 and 80. The second and the third have equal descriptions and equal
  amounts and their tops are 40 pixels apart, yet they end in different groups: the
  second was taken by the group of the first, and the third is compared with the
  first only (80 pixels away).
\<close>

theorem dedupe_close_pair_split:
  "build_groups same_text_ratio sample_within_cent 88
     [widget 1 1 0 100, widget 2 1 40 100, widget 3 1 80 100] = Inr [[0, 1], [2]] \<and>
   88 \<le> same_text_ratio (canonicalize_description (desc (widget 2 1 40 100)))
           (canonicalize_description (desc (widget 3 1 80 100))) \<and>
   amount (widget 2 1 40 100) = Some 100 \<and> amount (widget 3 1 80 100) = Some 100 \<and>
   sample_within_cent 100 100 \<and> \<bar>round2 100 - round2 100\<bar> < (0.01::real) \<and>
   page (widget 2 1 40 100) = page (widget 3 1 80 100) \<and>
   bbox (widget 2 1 40 100) = Some (10, 40, 200, 60) \<and>
   bbox (widget 3 1 80 100) = Some (10, 80, 200, 100) \<and>
   \<bar>40 - 80\<bar> < (50::int)"
  by (simp add: three_widgets_groups widget_ratio sample_within_cent_def)
    (simp add: widget_def)

text \<open>
  C6, amended. Let \<open>i\<close> be the first candidate of a group built by
  \<open>deduplicate_candidates\<close> and \<open>j\<close> a later candidate that is in no earlier group,
  such that the descriptions of \<open>i\<close> and \<open>j\<close> meet the similarity threshold, both
  carry amounts whose larger one is not zero, the amounts differ by at most 5% of the
  larger one and pass the code's test of being equal to within 0.01 after rounding to
  2 decimals (\<open>within_cent\<close>, whatever the float arithmetic makes of it), and both
  carry a bounding box. Then \<open>j\<close> is placed in the group of \<open>i\<close> if and only if the
  two are on the same page with tops less than 50 pixels apart, or on different pages.
\<close>

theorem dedupe_seed_pair_grouped_iff:
  assumes "build_groups r wc th cs = Inr gs"
    and "k < length gs" and "i = hd (gs ! k)" and "i < j" and "j < length cs"
    and "\<forall>m<k. j \<notin> set (gs ! m)"
    and "of_int th \<le> r (canonicalize_description (desc (cs ! i)))
                        (canonicalize_description (desc (cs ! j)))"
    and "amount (cs ! i) = Some a" and "amount (cs ! j) = Some b" and "max a b \<noteq> 0"
    and "\<not> 5 < \<bar>a - b\<bar> / max a b * 100"
    and "wc a b"
    and "bbox (cs ! i) = Some (x1, y1, x2, y2)" and "bbox (cs ! j) = Some (u1, v1, u2, v2)"
  shows "j \<in> set (gs ! k) \<longleftrightarrow>
     (page (cs ! i) = page (cs ! j) \<and> \<bar>y1 - v1\<bar> < 50) \<or> page (cs ! i) \<noteq> page (cs ! j)"
proof -
  let ?J = "\<lambda>i j. joins_group r wc th (cs ! i) (cs ! j) = Inr True"
  have J: "?J i j \<longleftrightarrow> page (cs ! i) \<noteq> page (cs ! j) \<or> \<bar>y1 - v1\<bar> < 50"
    using joins_group_matching [of th r "cs ! i" "cs ! j" a b wc x1 y1 x2 y2 u1 v1 u2 v2]
      assms(7-14)
    by simp
  from greedy_groups_member [OF build_groups_greedy [OF assms(1)] assms(2)]
  have "j \<in> set (gs ! k) \<longleftrightarrow> j = hd (gs ! k) \<or>
       (hd (gs ! k) < j \<and> j < length cs \<and> j \<notin> {} \<and> (\<forall>m<k. j \<notin> set (gs ! m)) \<and>
        ?J (hd (gs ! k)) j)"
    by blast
  then have "j \<in> set (gs ! k) \<longleftrightarrow> ?J i j"
    using assms(3-6) by auto
  with J show ?thesis by auto
qed

text \<open>The witness is the input of \<open>test_fuzzy_matching\<close>: id 4 (index 3, amount
  1234.49, page 2) joins the group of id 1 (index 0, amount 1234.50, page 1), and id 2
  (index 1, same page, tops 40 pixels apart) joins it too.\<close>

theorem dedupe_seed_pair_grouped_iff_witness:
  "build_groups same_text_ratio sample_within_cent 85 fuzzy_candidates
     = Inr [[0, 1, 3], [2]] \<and>
   sample_within_cent 1234.5 1234.49 \<and>
   3 \<in> set ([[0, 1, 3], [2::nat]] ! 0) \<and>
   page (fuzzy_candidates ! 0) \<noteq> page (fuzzy_candidates ! 3) \<and>
   1 \<in> set ([[0, 1, 3], [2::nat]] ! 0) \<and>
   page (fuzzy_candidates ! 0) = page (fuzzy_candidates ! 1) \<and> \<bar>10 - 50\<bar> < (50::int)"
proof -
  have far: "3 \<in> set ([[0, 1, 3], [2::nat]] ! 0) \<longleftrightarrow>
     (page (fuzzy_candidates ! 0) = page (fuzzy_candidates ! 3) \<and> \<bar>10 - 10\<bar> < (50::int)) \<or>
     page (fuzzy_candidates ! 0) \<noteq> page (fuzzy_candidates ! 3)"
    by (rule dedupe_seed_pair_grouped_iff [OF fuzzy_groups, where a = "1234.5" and b = "1234.49"
          and ?x1.0 = 10 and ?x2.0 = 200 and ?y2.0 = 30 and ?u1.0 = 10 and ?u2.0 = 200
          and ?v2.0 = 30])
      (simp_all add: fuzzy_candidates_def canon_fuzzy fuzzy_ratio sample_within_cent_def)
  have near: "1 \<in> set ([[0, 1, 3], [2::nat]] ! 0) \<longleftrightarrow>
     (page (fuzzy_candidates ! 0) = page (fuzzy_candidates ! 1) \<and> \<bar>10 - 50\<bar> < (50::int)) \<or>
     page (fuzzy_candidates ! 0) \<noteq> page (fuzzy_candidates ! 1)"
    by (rule dedupe_seed_pair_grouped_iff [OF fuzzy_groups, where a = "1234.5" and b = "1234.5"
          and ?x1.0 = 10 and ?x2.0 = 200 and ?y2.0 = 30 and ?u1.0 = 10 and ?u2.0 = 200
          and ?v2.0 = 70])
      (simp_all add: fuzzy_candidates_def canon_fuzzy fuzzy_ratio sample_within_cent_def)
  from far near show ?thesis
    by (simp add: fuzzy_groups sample_within_cent_def) (simp add: fuzzy_candidates_def)
qed

text \<open>
  C10 fails on the code: two rows \<open>Free sample\<close> with amount 0 have equal canonical
  descriptions, so the relative difference is computed and divides by
  \<open>max(0.0, 0.0)\<close>; \<open>deduplicate_candidates\<close> ends with \<open>ZeroDivisionError\<close>, whatever
  the outcome of the later cent test would be.
\<close>

theorem dedupe_zero_amounts_raises:
  "deduplicate_candidates same_text_ratio wc [free_sample 1 0, free_sample 2 40] 88
     = Inl ZeroDivisionError"
  by (simp add: deduplicate_candidates_def build_groups_def upt_conv_Cons joins_free_sample)

theorem dedupe_zero_amounts_raises_witness:
  "isl (deduplicate_candidates same_text_ratio sample_within_cent
          [free_sample 1 0, free_sample 2 40] 88)"
  using dedupe_zero_amounts_raises [of sample_within_cent] by simp

section \<open>Properties of reconciliation\<close>

lemma two_in_sum:
  fixes f :: "int \<Rightarrow> real"
  assumes "\<forall>x \<in> set xs. 0 \<le> f x" and "a \<in> set xs" and "b \<in> set xs" and "a \<noteq> b"
  shows "f a + f b \<le> sum_list (map f xs)"
  using assms
proof (induction xs)
  case Nil
  then show ?case by simp
next
  case (Cons x xs)
  have nn: "0 \<le> sum_list (map f xs)"
    using Cons.prems(1) by (intro sum_list_nonneg) auto
  have one: "\<And>c. c \<in> set xs \<Longrightarrow> f c \<le> sum_list (map f xs)"
    using Cons.prems(1) by (intro member_le_sum_list) auto
  consider "a = x" "b \<in> set xs" | "b = x" "a \<in> set xs" | "a \<in> set xs" "b \<in> set xs"
    using Cons.prems by auto
  then show ?case
  proof cases
    case 1
    then show ?thesis using one [of b] by simp
  next
    case 2
    then show ?thesis using one [of a] by simp
  next
    case 3
    then have "f a + f b \<le> sum_list (map f xs)" using Cons by auto
    moreover have "0 \<le> f x" using Cons.prems(1) by simp
    ultimately show ?thesis by simp
  qed
qed

lemma selected_value:
  assumes "is_selected s i"
  shows "var_value s i > 1 / 2"
  using assms by (auto simp: is_selected_def var_value_def split: option.splits)

lemma group_at_most_one:
  assumes feas: "feasible (build_problem valid t (Some groups) tol) s"
    and g: "g \<in> set groups"
    and a: "a \<in> set g" "a \<in> cand_id ` set valid" "is_selected s a"
    and b: "b \<in> set g" "b \<in> cand_id ` set valid" "is_selected s b"
  shows "a = b"
proof (rule ccontr)
  assume ne: "a \<noteq> b"
  let ?xv = "remdups (map cand_id valid)"
  let ?gv = "filter (\<lambda>i. i \<in> set ?xv) g"
  have mem: "a \<in> set ?gv" "b \<in> set ?gv" using a b by auto
  from mem(1) have "?gv \<noteq> []" by (metis empty_iff empty_set)
  then have "?gv \<in> set (lp_groups (build_problem valid t (Some groups) tol))"
    using g by (auto simp: build_problem_def Let_def)
  then have le: "sum_list (map (var_value s) ?gv) \<le> 1"
    using feas by (simp add: feasible_def)
  have "\<forall>i \<in> set ?xv. var_value s i = 0 \<or> var_value s i = 1"
    using feas by (simp add: feasible_def build_problem_def Let_def)
  then have nn: "\<forall>i \<in> set ?gv. 0 \<le> var_value s i" by auto
  have "var_value s a + var_value s b \<le> sum_list (map (var_value s) ?gv)"
    using nn mem ne by (rule two_in_sum)
  moreover have "var_value s a > 1 / 2" "var_value s b > 1 / 2"
    using a(3) b(3) by (auto dest: selected_value)
  ultimately show False using le by simp
qed

lemma selected_ids_subset:
  assumes "solve (build_problem (filter (\<lambda>c. amount c \<noteq> None) cs) t gs tol) = Optimal s"
  shows "set (selected_ids (ilp_reconcile solve cs t gs tol))
       \<subseteq> {i \<in> cand_id ` set (filter (\<lambda>c. amount c \<noteq> None) cs). is_selected s i}"
  using assms by (auto simp: ilp_reconcile_def Let_def)

lemma selected_ids_empty:
  assumes "solve (build_problem (filter (\<lambda>c. amount c \<noteq> None) cs) t gs tol) = NotOptimal"
  shows "selected_ids (ilp_reconcile solve cs t gs tol) = []"
  using assms by (auto simp: ilp_reconcile_def Let_def)

text \<open>
  C1. For every list of candidates, every list of duplicate groups, every reported
  total and every tolerance, the selection returned by \<open>ilp_reconcile\<close> holds at most
  one id of each duplicate group, whenever the solver keeps its contract (an assignment
  it reports optimal satisfies the constraints it was given).
\<close>

theorem ilp_reconcile_group_exclusive:
  assumes "solver_sound solve"
  shows "\<forall>g \<in> set groups.
     card (set g \<inter> set (selected_ids (ilp_reconcile solve cs t (Some groups) tol))) \<le> 1"
proof
  fix g assume g: "g \<in> set groups"
  let ?valid = "filter (\<lambda>c. amount c \<noteq> None) cs"
  let ?S = "set g \<inter> set (selected_ids (ilp_reconcile solve cs t (Some groups) tol))"
  show "card ?S \<le> 1"
  proof (cases "solve (build_problem ?valid t (Some groups) tol)")
    case NotOptimal
    then show ?thesis by (simp add: selected_ids_empty)
  next
    case (Optimal s)
    then have feas: "feasible (build_problem ?valid t (Some groups) tol) s"
      using assms by (simp add: solver_sound_def)
    have sub: "?S \<subseteq> {i \<in> set g. i \<in> cand_id ` set ?valid \<and> is_selected s i}"
      using selected_ids_subset [of solve cs t "Some groups" tol s] Optimal by auto
    have "\<And>a b. a \<in> ?S \<Longrightarrow> b \<in> ?S \<Longrightarrow> a = b"
    proof -
      fix a b assume "a \<in> ?S" "b \<in> ?S"
      with sub have "a \<in> set g" "a \<in> cand_id ` set ?valid" "is_selected s a"
        "b \<in> set g" "b \<in> cand_id ` set ?valid" "is_selected s b" by auto
      with feas g show "a = b" by (rule group_at_most_one)
    qed
    then show ?thesis
      by (metis card_le_Suc0_iff_eq One_nat_def List.finite_set finite_Int)
  qed
qed

lemma first_best_mem: "first_best p b ss \<in> set (b # ss)"
  by (induction ss arbitrary: b) (auto split: if_splits)

lemma exhaustive_solve_sound: "solver_sound exhaustive_solve"
  unfolding solver_sound_def
proof (intro allI impI)
  fix p s
  assume opt: "exhaustive_solve p = Optimal s"
  let ?feas = "filter (feasible p) (map (complete_solution p) (assignments (lp_vars p)))"
  from opt obtain s0 ss where f: "?feas = s0 # ss" and s: "s = first_best p s0 ss"
    by (auto simp: exhaustive_solve_def split: list.splits)
  have "s \<in> set ?feas" unfolding f s by (rule first_best_mem)
  then show "feasible p s" by simp
qed

lemmas lp_eval = build_problem_def candidates_3_def line_item_def exhaustive_solve_def
  feasible_def complete_solution_def lin_sum_def var_value_def objective_value_def
  is_selected_def Let_def

lemma reconcile_candidates_3:
  "selected_ids (ilp_reconcile exhaustive_solve candidates_3 (Some 350) (Some [[2, 3]]) 1)
     = [1, 3, 4]"
  by (simp add: ilp_reconcile_def lp_eval)

theorem ilp_reconcile_group_exclusive_witness:
  "solver_sound exhaustive_solve \<and>
   selected_ids (ilp_reconcile exhaustive_solve candidates_3 (Some 350) (Some [[2, 3]]) 1)
     = [1, 3, 4] \<and>
   card (set [2, 3] \<inter> set [1, 3, 4 :: int]) \<le> 1"
proof -
  have "card (set [2, 3] \<inter>
      set (selected_ids (ilp_reconcile exhaustive_solve candidates_3 (Some 350)
             (Some [[2, 3]]) 1))) \<le> 1"
    using ilp_reconcile_group_exclusive [OF exhaustive_solve_sound,
        of "[[2, 3]]" candidates_3 "Some 350" 1]
    by simp
  then show ?thesis
    using exhaustive_solve_sound by (simp only: reconcile_candidates_3)
qed

text \<open>
  C2. \<open>ilp_reconcile\<close> returns its outcome as a value (the model has no exception to
  raise): on an empty candidate list status \<open>ok\<close> with empty selection, total 0 and
  deviation 0; when no candidate has an amount status \<open>no_valid_amounts\<close> with the
  absolute reported total as deviation (0 without a target); when the solver reports no
  optimal assignment status \<open>infeasible\<close> with empty selection, total 0 and the
  absolute reported total as deviation.
\<close>

theorem ilp_reconcile_outcomes:
  "ilp_reconcile solve [] t g tol
     = \<lparr>selected_ids = [], selected_total = 0, deviation = 0, status = ''ok''\<rparr> \<and>
   (cs \<noteq> [] \<and> (\<forall>c \<in> set cs. amount c = None) \<longrightarrow>
      ilp_reconcile solve cs t g tol
        = \<lparr>selected_ids = [], selected_total = 0, deviation = abs_target t,
           status = ''no_valid_amounts''\<rparr>) \<and>
   ((\<exists>c \<in> set cs. amount c \<noteq> None) \<and>
    solve (build_problem (filter (\<lambda>c. amount c \<noteq> None) cs) t g tol) = NotOptimal \<longrightarrow>
      ilp_reconcile solve cs t g tol
        = \<lparr>selected_ids = [], selected_total = 0, deviation = abs_target t,
           status = ''infeasible''\<rparr>)"
proof (intro conjI impI)
  show "ilp_reconcile solve [] t g tol
     = \<lparr>selected_ids = [], selected_total = 0, deviation = 0, status = ''ok''\<rparr>"
    by (simp add: ilp_reconcile_def)
next
  assume a: "cs \<noteq> [] \<and> (\<forall>c \<in> set cs. amount c = None)"
  then have "filter (\<lambda>c. amount c \<noteq> None) cs = []" by (simp add: filter_empty_conv)
  with a show "ilp_reconcile solve cs t g tol
        = \<lparr>selected_ids = [], selected_total = 0, deviation = abs_target t,
           status = ''no_valid_amounts''\<rparr>"
    by (simp add: ilp_reconcile_def)
next
  assume a: "(\<exists>c \<in> set cs. amount c \<noteq> None) \<and>
    solve (build_problem (filter (\<lambda>c. amount c \<noteq> None) cs) t g tol) = NotOptimal"
  then have "filter (\<lambda>c. amount c \<noteq> None) cs \<noteq> []" "cs \<noteq> []"
    by (auto simp: filter_empty_conv)
  with a show "ilp_reconcile solve cs t g tol
        = \<lparr>selected_ids = [], selected_total = 0, deviation = abs_target t,
           status = ''infeasible''\<rparr>"
    by (simp add: ilp_reconcile_def Let_def)
qed

lemma no_fit:
  "exhaustive_solve (build_problem [line_item 1 ''Item A'' (Some 100) 95] (Some 50) None 1)
     = NotOptimal"
  by (simp add: lp_eval)

theorem ilp_reconcile_outcomes_witness:
  "ilp_reconcile exhaustive_solve [] (Some 350) None 1
     = \<lparr>selected_ids = [], selected_total = 0, deviation = 0, status = ''ok''\<rparr> \<and>
   ilp_reconcile exhaustive_solve [line_item 1 ''Item A'' None 95] (Some (- 350)) None 1
     = \<lparr>selected_ids = [], selected_total = 0, deviation = 350,
        status = ''no_valid_amounts''\<rparr> \<and>
   ilp_reconcile exhaustive_solve [line_item 1 ''Item A'' (Some 100) 95] (Some 50) None 1
     = \<lparr>selected_ids = [], selected_total = 0, deviation = 50, status = ''infeasible''\<rparr>"
proof -
  have a: "[line_item 1 ''Item A'' None 95] \<noteq> [] \<and>
      (\<forall>c \<in> set [line_item 1 ''Item A'' None 95]. amount c = None)"
    by (simp add: line_item_def)
  have f: "filter (\<lambda>c. amount c \<noteq> None) [line_item 1 ''Item A'' (Some 100) 95]
      = [line_item 1 ''Item A'' (Some 100) 95]"
    by (simp add: line_item_def)
  have b: "(\<exists>c \<in> set [line_item 1 ''Item A'' (Some 100) 95]. amount c \<noteq> None) \<and>
      exhaustive_solve (build_problem
        (filter (\<lambda>c. amount c \<noteq> None) [line_item 1 ''Item A'' (Some 100) 95])
        (Some 50) None 1) = NotOptimal"
    unfolding f using no_fit by (simp add: line_item_def)
  have 1: "ilp_reconcile exhaustive_solve [] (Some 350) None 1
     = \<lparr>selected_ids = [], selected_total = 0, deviation = 0, status = ''ok''\<rparr>"
    by (rule ilp_reconcile_outcomes [THEN conjunct1])
  have 2: "ilp_reconcile exhaustive_solve [line_item 1 ''Item A'' None 95] (Some (- 350)) None 1
     = \<lparr>selected_ids = [], selected_total = 0, deviation = abs_target (Some (- 350)),
        status = ''no_valid_amounts''\<rparr>"
    by (rule ilp_reconcile_outcomes [where solve = exhaustive_solve and t = "Some (- 350)" and g = None
          and tol = 1 and cs = "[line_item 1 ''Item A'' None 95]",
          THEN conjunct2, THEN conjunct1, THEN mp, OF a])
  have 3: "ilp_reconcile exhaustive_solve [line_item 1 ''Item A'' (Some 100) 95] (Some 50) None 1
     = \<lparr>selected_ids = [], selected_total = 0, deviation = abs_target (Some 50),
        status = ''infeasible''\<rparr>"
    by (rule ilp_reconcile_outcomes [where solve = exhaustive_solve and t = "Some 50" and g = None
          and tol = 1 and cs = "[line_item 1 ''Item A'' (Some 100) 95]",
          THEN conjunct2, THEN conjunct2, THEN mp, OF b])
  show ?thesis
    unfolding 1 2 3 by (simp add: abs_target_def)
qed


lemma map_of_append_id:
  "map_of (append_id k i m) =
     (map_of m)(k \<mapsto> (case map_of m k of None \<Rightarrow> [i] | Some ids \<Rightarrow> ids @ [i]))"
  by (induction m) (auto simp: fun_eq_iff)

lemma keys_append_id: "fst ` set (append_id k i m) = insert k (fst ` set m)"
proof (induction m)
  case Nil
  then show ?case by simp
next
  case (Cons kv m)
  obtain k' ids where kv: "kv = (k', ids)" by (cases kv)
  show ?case using Cons.IH unfolding kv by (cases "k' = k") auto
qed

lemma distinct_append_id: "distinct (map fst m) \<Longrightarrow> distinct (map fst (append_id k i m))"
proof (induction m)
  case Nil
  then show ?case by simp
next
  case (Cons kv m)
  obtain k' ids where kv: "kv = (k', ids)" by (cases kv)
  show ?case
  proof (cases "k' = k")
    case True
    with Cons kv show ?thesis by simp
  next
    case False
    have "k' \<notin> set (map fst (append_id k i m))"
      using Cons.prems kv False by (simp add: keys_append_id)
    with Cons kv False show ?thesis by simp
  qed
qed

lemma key_table_snoc:
  "key_table (cs @ [c]) = (case duplicate_key c of None \<Rightarrow> key_table cs
                           | Some key \<Rightarrow> append_id key (cand_id c) (key_table cs))"
  by (simp add: key_table_def split: option.split)

lemma key_table_inv:
  "distinct (map fst (key_table cs)) \<and>
   (\<forall>k. map_of (key_table cs) k =
        (if ids_with_key k cs = [] then None else Some (ids_with_key k cs)))"
proof (induction cs rule: rev_induct)
  case Nil
  then show ?case by (simp add: key_table_def ids_with_key_def)
next
  case (snoc c cs)
  have ih: "map_of (key_table cs) k =
        (if ids_with_key k cs = [] then None else Some (ids_with_key k cs))" for k
    using snoc by blast
  show ?case
  proof (cases "duplicate_key c")
    case None
    then have "\<And>k. ids_with_key k (cs @ [c]) = ids_with_key k cs"
      by (simp add: ids_with_key_def)
    with snoc None show ?thesis by (simp add: key_table_snoc)
  next
    case (Some key)
    have ids: "ids_with_key k (cs @ [c])
        = (if k = key then ids_with_key k cs @ [cand_id c] else ids_with_key k cs)" for k
      using Some by (auto simp: ids_with_key_def)
    have kt: "key_table (cs @ [c]) = append_id key (cand_id c) (key_table cs)"
      using Some by (simp add: key_table_snoc)
    have d: "distinct (map fst (key_table (cs @ [c])))"
      using snoc unfolding kt by (simp add: distinct_append_id)
    have m: "map_of (key_table (cs @ [c])) k =
        (if ids_with_key k (cs @ [c]) = [] then None else Some (ids_with_key k (cs @ [c])))"
      for k
    proof (cases "k = key")
      case True
      show ?thesis unfolding kt map_of_append_id ids using True ih [of key] by simp
    next
      case False
      show ?thesis unfolding kt map_of_append_id ids using False ih [of k] by simp
    qed
    from d m show ?thesis by blast
  qed
qed

lemma key_table_entries:
  "(k, ids) \<in> set (key_table cs) \<longleftrightarrow> ids \<noteq> [] \<and> ids = ids_with_key k cs"
proof -
  have "(k, ids) \<in> set (key_table cs) \<longleftrightarrow> map_of (key_table cs) k = Some ids"
    using key_table_inv [of cs] by (auto intro: map_of_is_SomeI dest: map_of_SomeD)
  then show ?thesis using key_table_inv [of cs] by auto
qed

lemma make_groups_set:
  "set (make_duplicate_groups_from_candidates cs)
     = {ids_with_key k cs | k. 2 \<le> length (ids_with_key k cs)}"
proof -
  have two: "2 \<le> n \<longleftrightarrow> 1 < n" for n :: nat by arith
  show ?thesis
  proof (cases "cs = []")
    case True
    then show ?thesis by (simp add: make_duplicate_groups_from_candidates_def ids_with_key_def)
  next
    case False
    then have "set (make_duplicate_groups_from_candidates cs)
        = {ids. \<exists>k. (k, ids) \<in> set (key_table cs) \<and> 1 < length ids}"
      by (force simp: make_duplicate_groups_from_candidates_def key_table_def Let_def)
    also have "\<dots> = {ids. \<exists>k. ids = ids_with_key k cs \<and> 1 < length (ids_with_key k cs)}"
      unfolding key_table_entries by auto
    finally show ?thesis unfolding two by blast
  qed
qed

lemma ids_with_key_amount:
  assumes "i \<in> set (ids_with_key k cs)"
  shows "\<exists>c \<in> set cs. cand_id c = i \<and> amount c \<noteq> None"
  using assms by (auto simp: ids_with_key_def duplicate_key_def split: option.splits)

text \<open>
  C5, as stated, fails: the rows \<open>Widget X.\<close> and \<open>Widget X\<close> have the same canonical
  description and the same amount, and form no group.
\<close>

theorem duplicate_groups_not_canonical:
  "canonicalize_description (desc (line_item 1 ''Widget X.'' (Some 100) 90))
     = canonicalize_description (desc (line_item 2 ''Widget X'' (Some 100) 85)) \<and>
   make_duplicate_groups_from_candidates
     [line_item 1 ''Widget X.'' (Some 100) 90, line_item 2 ''Widget X'' (Some 100) 85] = []"
  by (simp add: make_duplicate_groups_from_candidates_def duplicate_key_def line_item_def
      canonicalize_description_def str_eval round2_100)

text \<open>
  C5, amended. \<open>make_duplicate_groups_from_candidates\<close> groups candidates by the exact
  pair of the description stripped of surrounding white space and lowercased (no
  punctuation or stopword is removed) and the amount rounded to 2 decimals: the groups
  are exactly the id lists of the keys shared by at least 2 candidates. Every id in a
  group is the id of a candidate that carries an amount, so with distinct ids a
  candidate whose amount is \<open>None\<close> appears in no group.
\<close>

theorem duplicate_groups_by_exact_key:
  "set (make_duplicate_groups_from_candidates cs)
     = {ids_with_key k cs | k. 2 \<le> length (ids_with_key k cs)} \<and>
   (\<forall>g \<in> set (make_duplicate_groups_from_candidates cs). \<forall>i \<in> set g.
      \<exists>c \<in> set cs. cand_id c = i \<and> amount c \<noteq> None) \<and>
   (distinct (map cand_id cs) \<longrightarrow>
      (\<forall>c \<in> set cs. amount c = None \<longrightarrow>
         (\<forall>g \<in> set (make_duplicate_groups_from_candidates cs). cand_id c \<notin> set g)))"
proof (intro conjI impI ballI)
  show "set (make_duplicate_groups_from_candidates cs)
     = {ids_with_key k cs | k. 2 \<le> length (ids_with_key k cs)}"
    by (rule make_groups_set)
next
  fix g i
  assume "g \<in> set (make_duplicate_groups_from_candidates cs)" and i: "i \<in> set g"
  then obtain k where "g = ids_with_key k cs" unfolding make_groups_set by blast
  with i have "i \<in> set (ids_with_key k cs)" by simp
  then show "\<exists>c \<in> set cs. cand_id c = i \<and> amount c \<noteq> None"
    by (rule ids_with_key_amount)
next
  fix c g
  assume d: "distinct (map cand_id cs)" and c: "c \<in> set cs" "amount c = None"
    and "g \<in> set (make_duplicate_groups_from_candidates cs)"
  then obtain k where g: "g = ids_with_key k cs" unfolding make_groups_set by blast
  show "cand_id c \<notin> set g"
  proof
    assume "cand_id c \<in> set g"
    then have "\<exists>c' \<in> set cs. cand_id c' = cand_id c \<and> amount c' \<noteq> None"
      unfolding g by (rule ids_with_key_amount)
    then obtain c' where c': "c' \<in> set cs" "cand_id c' = cand_id c" "amount c' \<noteq> None"
      by blast
    have "inj_on cand_id (set cs)" using d by (simp add: distinct_map)
    with c(1) c'(1,2) have "c' = c" by (auto dest: inj_onD)
    with c(2) c'(3) show False by simp
  qed
qed

lemma groups_candidates_3: "make_duplicate_groups_from_candidates candidates_3 = [[2, 3]]"
  by (simp add: make_duplicate_groups_from_candidates_def duplicate_key_def candidates_3_def
      line_item_def str_eval round2_def round_half_even_def)

theorem duplicate_groups_by_exact_key_witness:
  "[2, 3] \<in> set (make_duplicate_groups_from_candidates candidates_3) \<and>
   ids_with_key (str ''widget x'', 200) candidates_3 = [2, 3] \<and>
   make_duplicate_groups_from_candidates candidates_3 = [[2, 3]]"
proof -
  have k: "ids_with_key (str ''widget x'', 200) candidates_3 = [2, 3]"
    by (simp add: ids_with_key_def duplicate_key_def candidates_3_def
      line_item_def str_eval round2_def round_half_even_def)
  have "ids_with_key (str ''widget x'', 200) candidates_3
      \<in> set (make_duplicate_groups_from_candidates candidates_3)"
    unfolding duplicate_groups_by_exact_key [THEN conjunct1] using k
    by (intro CollectI exI [of _ "(str ''widget x'', 200)"]) simp
  with k show ?thesis by (simp add: groups_candidates_3)
qed

section \<open>Properties of amount parsing\<close>

lemmas amount_eval = extract_amount_from_cell_text_def in_currency_class_def
  in_number_class_def match_number_def match_groups.simps match_decimal_def to_float_def
  digits_value_def str_eval

lemma amount_parenthesized:
  "extract_amount_from_cell_text (str ''(1,200.00)'') = Some (- 1200)"
  by (simp add: amount_eval)

lemma amount_rupee:
  "extract_amount_from_cell_text (8377 # str ''1,234.50'') = Some 1234.5"
  by (simp add: amount_eval)

lemma amount_credit:
  "extract_amount_from_cell_text (str ''500.75 Cr'') = Some 500.75"
  by (simp add: amount_eval)

lemma amount_no_number:
  "extract_amount_from_cell_text (str ''No amount here'') = None"
  by (simp add: amount_eval)

lemma findall_ungrouped: "findall (str ''1234.56'') = [str ''123'', str ''4.56'']"
  by (simp add: amount_eval)

text \<open>
  C3 fails on the code at one row of the table. The four-digit amount of
  \<open>1234.56 Dr\<close> has no thousands separator; the pattern takes its first three digits as
  one match and \<open>4.56\<close> as the next, and the last match is the one kept, so the result
  is -4.56 where the table expects -1234.56.
\<close>

theorem amount_debit_ungrouped:
  "extract_amount_from_cell_text (str ''1234.56 Dr'') = Some (- 4.56)"
  by (simp add: amount_eval)

theorem amount_debit_ungrouped_witness:
  "extract_amount_from_cell_text (str ''1234.56 Dr'') \<noteq> Some (- 1234.56)"
  using amount_debit_ungrouped by simp

section \<open>Properties of text-based extraction\<close>

lemma scan_row_amounts:
  "map fst (snd (scan_row ts (d, a))) = map fst a @ row_amounts ts"
proof (induction ts arbitrary: d a)
  case Nil
  then show ?case by (simp add: row_amounts_def map_filter_simps)
next
  case (Cons t ts)
  show ?case
  proof (cases "strip (tok_text t) = []")
    case True
    then show ?thesis using Cons.IH [of d a]
      by (simp add: row_amounts_def map_filter_simps)
  next
    case False
    show ?thesis
    proof (cases "extract_amount_from_cell_text (strip (tok_text t))")
      case None
      with False show ?thesis using Cons.IH [of "d @ [strip (tok_text t)]" a]
        by (simp add: row_amounts_def map_filter_simps Let_def)
    next
      case (Some x)
      with False show ?thesis
        using Cons.IH [of d "a @ [(x, tok_conf t, strip (tok_text t))]"]
        by (simp add: row_amounts_def map_filter_simps Let_def)
    qed
  qed
qed

lemma fst_last_filter:
  assumes "filter (\<lambda>a. P (fst a)) xs \<noteq> []"
  shows "fst (last (filter (\<lambda>a. P (fst a)) xs)) = last (filter P (map fst xs))"
proof -
  have "filter P (map fst xs) = map fst (filter (\<lambda>a. P (fst a)) xs)"
    by (simp add: filter_map comp_def)
  with assms show ?thesis by (simp add: last_map)
qed

lemma strip_Service: "strip (str ''Service'') = str ''Service''"
  by (simp add: str_eval)
lemma strip_100: "strip (str ''100'') = str ''100''"
  by (simp add: str_eval)
lemma strip_20: "strip (str ''(20)'') = str ''(20)''"
  by (simp add: str_eval)
lemma strip_0: "strip (str ''0.00'') = str ''0.00''"
  by (simp add: str_eval)
lemma ne_strs: "str ''Service'' \<noteq> []" "str ''100'' \<noteq> []" "str ''(20)'' \<noteq> []" "str ''0.00'' \<noteq> []"
  by (simp_all add: str_def)
lemma am_Service: "extract_amount_from_cell_text (str ''Service'') = None"
  by (simp add: amount_eval)
lemma am_100: "extract_amount_from_cell_text (str ''100'') = Some 100"
  by (simp add: amount_eval)
lemma am_20: "extract_amount_from_cell_text (str ''(20)'') = Some (- 20)"
  by (simp add: amount_eval)
lemma am_0: "extract_amount_from_cell_text (str ''0.00'') = Some 0"
  by (simp add: amount_eval)

lemmas row_eval = tok_def strip_Service strip_100 strip_20 strip_0 ne_strs am_Service am_100 am_20 am_0

lemma ra1: "row_amounts discount_row = [100, - 20]"
  by (simp add: row_amounts_def discount_row_def map_filter_simps row_eval)


lemma discount_row_item:
  "map_option ri_amount (extract_line_item_from_row discount_row) = Some 100"
  by (simp add: extract_line_item_from_row_def discount_row_def row_eval Let_def)

text \<open>The amount \<open>extract_line_item_from_row\<close> selects, for every row with at least one
  numeric token: the test the source applies to an amount is \<open>amount > 0.01\<close>.\<close>

lemma extract_line_item_amount:
  assumes "row_amounts row \<noteq> []"
  shows "\<exists>item. extract_line_item_from_row row = Some item \<and>
     ri_amount item =
       (if filter (\<lambda>a. a > 0.01) (row_amounts row) \<noteq> []
        then last (filter (\<lambda>a. a > 0.01) (row_amounts row))
        else last (row_amounts row))"
proof -
  obtain d ac where sc: "scan_row row ([], []) = (d, ac)" by (cases "scan_row row ([], [])")
  have ra: "row_amounts row = map fst ac"
    using scan_row_amounts [of row "[]" "[]"] sc by simp
  have ne: "ac \<noteq> []" using assms ra by auto
  have row: "row \<noteq> []" using assms by (auto simp: row_amounts_def map_filter_simps)
  have f: "filter (\<lambda>a. a > 0.01) (map fst ac) = map fst (filter (\<lambda>a. fst a > 0.01) ac)"
    by (simp add: filter_map comp_def)
  show ?thesis
    using sc ne row unfolding ra f
    by (simp add: extract_line_item_from_row_def Let_def last_map)
qed

lemma zero_tax_amounts: "row_amounts zero_tax_row = [100, 0]"
  by (simp add: row_amounts_def zero_tax_row_def map_filter_simps row_eval)

lemma zero_tax_row_item:
  "map_option ri_amount (extract_line_item_from_row zero_tax_row) = Some 100"
  by (simp add: extract_line_item_from_row_def zero_tax_row_def row_eval Let_def)

lemma strip_Refund: "strip (str ''Refund'') = str ''Refund''"
  by (simp add: str_eval)
lemma strip_50: "strip (str ''(50.00)'') = str ''(50.00)''"
  by (simp add: str_eval)
lemma ne_refund: "str ''Refund'' \<noteq> []" "str ''(50.00)'' \<noteq> []"
  by (simp_all add: str_def)
lemma am_Refund: "extract_amount_from_cell_text (str ''Refund'') = None"
  by (simp add: amount_eval)
lemma am_50: "extract_amount_from_cell_text (str ''(50.00)'') = Some (- 50)"
  by (simp add: amount_eval)

lemmas refund_eval = tok_def strip_Refund strip_50 strip_0 ne_refund ne_strs am_Refund am_50 am_0

lemma refund_amounts: "row_amounts refund_row = [- 50, 0]"
  by (simp add: row_amounts_def refund_row_def map_filter_simps refund_eval)

lemma refund_row_item:
  "map_option ri_amount (extract_line_item_from_row refund_row) = Some 0"
  by (simp add: extract_line_item_from_row_def refund_row_def refund_eval Let_def)

text \<open>
  C9 fails on the code. The source words the choice as \<open>the rightmost non-zero amount\<close>
  and the fallback as \<open>All amounts are zero - use the last one\<close>, as the claim does. In
  the row \<open>Refund (50.00) 0.00\<close> the numeric tokens have the values -50 and 0, so the
  right-most token that parses to a non-zero value is \<open>(50.00)\<close>; the candidate's
  amount is 0, taken in the fallback although not every amount is zero.
\<close>

theorem row_amount_negative_read_as_zero:
  "row_amounts refund_row = [- 50, 0] \<and>
   last (filter (\<lambda>a. a \<noteq> 0) (row_amounts refund_row)) = - 50 \<and>
   map_option ri_amount (extract_line_item_from_row refund_row) = Some 0"
  by (simp add: refund_amounts refund_row_item)

theorem row_amount_negative_read_as_zero_witness:
  "map_option ri_amount (extract_line_item_from_row refund_row)
     \<noteq> Some (last (filter (\<lambda>a. a \<noteq> 0) (row_amounts refund_row)))"
  using row_amount_negative_read_as_zero by auto

lemma strip_Widget: "strip (str ''Widget'') = str ''Widget''"
  by (simp add: str_eval)

lemma am_Widget: "extract_amount_from_cell_text (str ''Widget'') = None"
  by (simp add: amount_eval)

lemma widget_row_item:
  "extract_line_item_from_row [tok ''Widget'' 10 100, tok ''100'' 300 100]
     = Some \<lparr>ri_desc = str ''Widget'', ri_amount = 100, ri_conf = 90,
             ri_bbox = (10, 100, 360, 120), ri_raw_cells = [str ''Widget'', str ''100'']\<rparr>"
  by (simp add: extract_line_item_from_row_def Let_def tok_def strip_Widget strip_100
      am_Widget am_100 ne_strs min_of_def max_of_def)
    (simp add: str_def)

lemma widget_page:
  "extract_candidates_text_based widget_page_tokens n
     = [\<lparr>cand_id = 1, page = n, bbox = Some (10, 100, 360, 120),
         raw_cells = [str ''Widget'', str ''100''], desc = str ''Widget'',
         amount = Some 100, conf = 90, merged_ids = None\<rparr>]"
proof -
  have rows: "cluster_tokens_into_rows widget_page_tokens 20 = [widget_page_tokens]"
    by (simp add: cluster_tokens_into_rows_def widget_page_tokens_def tok_def)
  have keep: "filter (\<lambda>t. tok_conf t \<ge> 30) widget_page_tokens = widget_page_tokens"
    by (simp add: widget_page_tokens_def tok_def)
  have kw: "\<not> (\<exists>keyword \<in> set total_keywords. contains keyword (lower (str ''Widget'')))"
    by (simp add: total_keywords_def str_eval)
  have len: "\<not> length (str ''Widget'') < 3" by (simp add: str_def)
  have ne: "widget_page_tokens \<noteq> []" by (simp add: widget_page_tokens_def)
  have item: "extract_line_item_from_row widget_page_tokens
     = Some \<lparr>ri_desc = str ''Widget'', ri_amount = 100, ri_conf = 90,
             ri_bbox = (10, 100, 360, 120), ri_raw_cells = [str ''Widget'', str ''100'']\<rparr>"
    unfolding widget_page_tokens_def by (rule widget_row_item)
  show ?thesis
    using kw len ne
    by (simp add: extract_candidates_text_based_def keep rows item Let_def)
qed

text \<open>
  C4 fails on the code in the text-based mode, the one the pipeline uses: two pages
  that each hold the row \<open>Widget 100\<close> give two candidates, one per page, and both carry
  the id 1.
\<close>

theorem text_mode_ids_repeat_across_pages:
  "map cand_id (extract_all_pages [widget_page_tokens, widget_page_tokens]) = [1, 1] \<and>
   map page (extract_all_pages [widget_page_tokens, widget_page_tokens]) = [1, 2]"
  by (simp add: extract_all_pages_def widget_page)

theorem text_mode_ids_repeat_across_pages_witness:
  "\<not> distinct (map cand_id (extract_all_pages [widget_page_tokens, widget_page_tokens]))"
  using text_mode_ids_repeat_across_pages by simp

end
